theory Spec2Isabelle
  imports Complex_Main "HOL-Library.Sublist"
begin

section \<open>Paths (pathlib on POSIX)\<close>

text \<open>
  A \<^verbatim>\<open>pathlib.Path\<close> on POSIX is a root flag and a list of components. The
  daemon only compares paths after \<^verbatim>\<open>resolve()\<close>, which always yields the single
  root \<^verbatim>\<open>/\<close>, so the two-slash root of POSIX is not kept apart. Strings are
  byte lists; for ASCII text they agree with Python's \<^verbatim>\<open>str\<close>.
\<close>

datatype path = PosixPath (is_absolute: bool) (parts: "string list")

text \<open>\<^verbatim>\<open>str.split(sep)\<close> for a one-character separator.\<close>

fun split_on :: "char \<Rightarrow> string \<Rightarrow> string list" where
  "split_on sep [] = [[]]"
| "split_on sep (c # cs) =
     (if c = sep then [] # split_on sep cs
      else (case split_on sep cs of
              [] \<Rightarrow> [[c]]
            | w # ws \<Rightarrow> (c # w) # ws))"

text \<open>
  \<^verbatim>\<open>Path(s)\<close>: the text is absolute when it starts with a slash; empty
  components and \<^verbatim>\<open>.\<close> are dropped, \<^verbatim>\<open>..\<close> is kept.
\<close>

definition parse_path :: "string \<Rightarrow> path" where
  "parse_path s =
     PosixPath (s \<noteq> [] \<and> hd s = CHR ''/'')
       (filter (\<lambda>x. x \<noteq> [] \<and> x \<noteq> ''.'') (split_on (CHR ''/'') s))"

text \<open>\<^verbatim>\<open>a / b\<close>: an absolute right operand replaces the left one.\<close>

definition joinpath :: "path \<Rightarrow> path \<Rightarrow> path" where
  "joinpath a b = (if is_absolute b then b else PosixPath (is_absolute a) (parts a @ parts b))"

text \<open>
  \<^verbatim>\<open>Path.resolve()\<close> on a file system without symbolic links: the components
  are walked left to right, \<^verbatim>\<open>..\<close> drops the last component kept so far and
  stays at the root when there is none. The daemon only resolves absolute paths
  (\<^verbatim>\<open>CsyncConfig.__post_init__\<close> makes \<^verbatim>\<open>local_path\<close> absolute, and
  \<^verbatim>\<open>_coerce_path\<close> joins a relative path onto the resolved root first); a relative
  argument is read from the root here.
\<close>

fun resolve_parts :: "string list \<Rightarrow> string list \<Rightarrow> string list" where
  "resolve_parts acc [] = acc"
| "resolve_parts acc (x # xs) =
     (if x = ''..'' then resolve_parts (butlast acc) xs
      else if x = ''.'' \<or> x = [] then resolve_parts acc xs
      else resolve_parts (acc @ [x]) xs)"

definition resolve :: "path \<Rightarrow> path" where
  "resolve p = PosixPath True (resolve_parts [] (parts p))"

text \<open>\<^verbatim>\<open>sep.join(xs)\<close>.\<close>

fun join_with :: "char \<Rightarrow> string list \<Rightarrow> string" where
  "join_with sep [] = []"
| "join_with sep [x] = x"
| "join_with sep (x # y # ys) = x @ sep # join_with sep (y # ys)"

text \<open>\<^verbatim>\<open>Path.as_posix()\<close> and \<^verbatim>\<open>str(path)\<close>.\<close>

definition as_posix :: "path \<Rightarrow> string" where
  "as_posix p =
     (if is_absolute p then CHR ''/'' # join_with (CHR ''/'') (parts p)
      else if parts p = [] then ''.''
      else join_with (CHR ''/'') (parts p))"

text \<open>\<^verbatim>\<open>Path.name\<close>: the last component, empty for the root.\<close>

definition name :: "path \<Rightarrow> string" where
  "name p = (if parts p = [] then [] else last (parts p))"

datatype py_error = ValueError | OSError | OtherException

text \<open>
  \<^verbatim>\<open>Path.relative_to(other)\<close>: the components after \<^verbatim>\<open>other\<close>, or
  \<^verbatim>\<open>ValueError\<close> when \<^verbatim>\<open>other\<close> is not a leading part of the path.
\<close>

definition relative_to :: "path \<Rightarrow> path \<Rightarrow> py_error + path" where
  "relative_to p other =
     (if is_absolute p = is_absolute other \<and> prefix (parts other) (parts p)
      then Inr (PosixPath False (drop (length (parts other)) (parts p)))
      else Inl ValueError)"

text \<open>
  \<^verbatim>\<open>os.path.relpath(path, start)\<close> for two absolute, normalised paths: climb out
  of what \<^verbatim>\<open>start\<close> has beyond the common leading components, then descend.
\<close>

fun common_len :: "string list \<Rightarrow> string list \<Rightarrow> nat" where
  "common_len (x # xs) (y # ys) = (if x = y then Suc (common_len xs ys) else 0)"
| "common_len _ _ = 0"

definition relpath :: "path \<Rightarrow> path \<Rightarrow> string" where
  "relpath p start =
     (let i = common_len (parts start) (parts p);
          rel_list = replicate (length (parts start) - i) ''..'' @ drop i (parts p)
      in if rel_list = [] then ''.'' else join_with (CHR ''/'') rel_list)"

section \<open>Configuration and daemon state\<close>

record CsyncConfig =
  cfg_local_path :: string
  remote_target :: string
  exclude_patterns :: "string list option"
  cfg_config_file :: "string option"

record CsyncDaemon =
  config :: CsyncConfig
  local_path :: path
  is_running :: bool
  pending_changes :: "path set"
  last_sync_time :: real
  sync_count :: int
  sync_delay :: real
  max_sync_interval :: real
  batch_size :: int
  signature :: string
  observer_watches :: "string list"
  observer_alive :: bool

text \<open>
  \<^verbatim>\<open>CsyncDaemon.__init__\<close>. The signature comes from the process manager's
  \<^verbatim>\<open>generate_signature\<close>, which is taken as a parameter. Clock values are reals.
\<close>

definition CsyncDaemon_init :: "(string \<Rightarrow> string) \<Rightarrow> CsyncConfig \<Rightarrow> CsyncDaemon" where
  "CsyncDaemon_init generate_signature cfg =
     (let lp = resolve (parse_path (cfg_local_path cfg)) in
      \<lparr> config = cfg,
        local_path = lp,
        is_running = False,
        pending_changes = {},
        last_sync_time = 0,
        sync_count = 0,
        sync_delay = 5,
        max_sync_interval = 300,
        batch_size = 100,
        signature = generate_signature (as_posix lp),
        observer_watches = [],
        observer_alive = False \<rparr>)"

section \<open>Sync scheduler\<close>

text \<open>\<^verbatim>\<open>should_sync_now\<close>; the argument \<open>current_time\<close> is what \<^verbatim>\<open>time.time()\<close> returns.\<close>

definition should_sync_now :: "CsyncDaemon \<Rightarrow> real \<Rightarrow> bool" where
  "should_sync_now d current_time =
     (if current_time - last_sync_time d > max_sync_interval d then True
      else if pending_changes d \<noteq> {} \<and> current_time - last_sync_time d > sync_delay d then True
      else False)"

section \<open>Shell-style matching (fnmatch on POSIX)\<close>

text \<open>
  \<^verbatim>\<open>fnmatch.fnmatch(name, pat)\<close> of the standard library, on POSIX (no case
  folding). A pattern is read left to right: \<^verbatim>\<open>*\<close> matches any text (slashes
  included), \<^verbatim>\<open>?\<close> one character, \<^verbatim>\<open>[seq]\<close> one character of a class,
  \<^verbatim>\<open>[!seq]\<close> one character outside it; a bracket that is never closed stands
  for itself. The whole name must match.
\<close>

datatype glob_tok = Star | AnyChar | Lit char | Class bool "(char \<times> char) list"

text \<open>
  The text between the brackets: \<^verbatim>\<open>a-b\<close> is the range from \<^verbatim>\<open>a\<close> to
  \<^verbatim>\<open>b\<close> (empty when \<^verbatim>\<open>a > b\<close>); a hyphen that is first, last or right after
  a range stands for itself.
\<close>

fun class_items :: "string \<Rightarrow> (char \<times> char) list" where
  "class_items (a # h # b # rest) =
     (if h = CHR ''-'' then (a, b) # class_items rest
      else (a, a) # class_items (h # b # rest))"
| "class_items (a # rest) = (a, a) # class_items rest"
| "class_items [] = []"

text \<open>
  The index of the closing bracket in the text after an opening one: a leading
  \<^verbatim>\<open>!\<close> and then a leading \<^verbatim>\<open>]\<close> are skipped before the search.
\<close>

definition find_from :: "nat \<Rightarrow> char \<Rightarrow> string \<Rightarrow> nat option" where
  "find_from j c s =
     (if c \<in> set (drop j s) then Some (j + length (takeWhile (\<lambda>x. x \<noteq> c) (drop j s)))
      else None)"

definition close_index :: "string \<Rightarrow> nat option" where
  "close_index rest =
     (let j = (if rest \<noteq> [] \<and> hd rest = CHR ''!'' then 1 else 0);
          j = (if j < length rest \<and> rest ! j = CHR '']'' then j + 1 else j)
      in find_from j (CHR '']'') rest)"

definition class_tok :: "string \<Rightarrow> glob_tok" where
  "class_tok stuff =
     (if stuff \<noteq> [] \<and> hd stuff = CHR ''!'' then Class True (class_items (tl stuff))
      else Class False (class_items stuff))"

function translate :: "string \<Rightarrow> glob_tok list" where
  "translate [] = []"
| "translate (c # rest) =
     (if c = CHR ''*'' then Star # translate rest
      else if c = CHR ''?'' then AnyChar # translate rest
      else if c = CHR ''['' then
        (case close_index rest of
           None \<Rightarrow> Lit (CHR ''['') # translate rest
         | Some j \<Rightarrow> class_tok (take j rest) # translate (drop (Suc j) rest))
      else Lit c # translate rest)"
  by pat_completeness auto
termination
  by (relation "measure length") auto

fun in_ranges :: "(char \<times> char) list \<Rightarrow> char \<Rightarrow> bool" where
  "in_ranges [] c = False"
| "in_ranges ((lo, hi) # rs) c =
     ((of_char lo \<le> (of_char c :: nat) \<and> (of_char c :: nat) \<le> of_char hi) \<or> in_ranges rs c)"

fun tok_ok :: "glob_tok \<Rightarrow> char \<Rightarrow> bool" where
  "tok_ok Star c = True"
| "tok_ok AnyChar c = True"
| "tok_ok (Lit a) c = (a = c)"
| "tok_ok (Class neg rs) c = (in_ranges rs c \<noteq> neg)"

fun glob_match :: "glob_tok list \<Rightarrow> string \<Rightarrow> bool" where
  "glob_match [] s = (s = [])"
| "glob_match (Star # ts) [] = glob_match ts []"
| "glob_match (Star # ts) (c # s) = (glob_match ts (c # s) \<or> glob_match (Star # ts) s)"
| "glob_match (t # ts) [] = False"
| "glob_match (t # ts) (c # s) = (tok_ok t c \<and> glob_match ts s)"

definition fnmatch :: "string \<Rightarrow> string \<Rightarrow> bool" where
  "fnmatch nm pat = glob_match (translate pat) nm"

section \<open>Exclusion matcher\<close>

text \<open>A raw path is a string or already a \<^verbatim>\<open>Path\<close>.\<close>

datatype RawPath = RawStr string | RawPathObj path

text \<open>\<^verbatim>\<open>_coerce_path\<close>.\<close>

definition coerce_path :: "CsyncDaemon \<Rightarrow> RawPath \<Rightarrow> path" where
  "coerce_path d file_path =
     (let p = (case file_path of RawPathObj q \<Rightarrow> q | RawStr decoded \<Rightarrow> parse_path decoded)
      in if \<not> is_absolute p then resolve (joinpath (local_path d) p)
         else resolve p)"

text \<open>\<^verbatim>\<open>_relative_path\<close>.\<close>

definition relative_path :: "CsyncDaemon \<Rightarrow> path \<Rightarrow> string" where
  "relative_path d p =
     (case relative_to p (local_path d) of
        Inr r \<Rightarrow> as_posix r
      | Inl e \<Rightarrow> relpath p (local_path d))"

text \<open>String helpers of \<^verbatim>\<open>should_exclude_file\<close>.\<close>

definition replace_backslash :: "string \<Rightarrow> string" where
  "replace_backslash s = map (\<lambda>c. if c = CHR 0x5C then CHR ''/'' else c) s"

definition endswith_slash :: "string \<Rightarrow> bool" where
  "endswith_slash s = (s \<noteq> [] \<and> last s = CHR ''/'')"

definition rstrip_slash :: "string \<Rightarrow> string" where
  "rstrip_slash s = rev (dropWhile (\<lambda>c. c = CHR ''/'') (rev s))"

text \<open>The body of the loop over the patterns: does this pattern exclude the path?\<close>

definition pattern_excludes :: "string \<Rightarrow> string \<Rightarrow> string \<Rightarrow> bool" where
  "pattern_excludes rel_path nm pattern =
     (let normalized_pattern = replace_backslash pattern in
      if endswith_slash normalized_pattern then
        prefix (rstrip_slash normalized_pattern) rel_path
      else if CHR ''*'' \<in> set normalized_pattern then
        fnmatch rel_path normalized_pattern \<or> fnmatch nm normalized_pattern
      else
        rel_path = normalized_pattern \<or> nm = normalized_pattern)"

fun exclude_loop :: "string \<Rightarrow> string \<Rightarrow> string list \<Rightarrow> bool" where
  "exclude_loop rel_path nm [] = False"
| "exclude_loop rel_path nm (pattern # rest) =
     (if pattern_excludes rel_path nm pattern then True
      else exclude_loop rel_path nm rest)"

text \<open>
  \<^verbatim>\<open>should_exclude_file\<close>; \<^verbatim>\<open>not self.config.exclude_patterns\<close> holds for
  \<^verbatim>\<open>None\<close> and for the empty list.
\<close>

definition should_exclude_file :: "CsyncDaemon \<Rightarrow> RawPath \<Rightarrow> bool" where
  "should_exclude_file d file_path =
     (let p = coerce_path d file_path;
          rel_path = relative_path d p
      in case exclude_patterns (config d) of
           None \<Rightarrow> False
         | Some [] \<Rightarrow> False
         | Some pats \<Rightarrow> exclude_loop rel_path (name p) pats)"

section \<open>Change coalescer\<close>

text \<open>
  \<^verbatim>\<open>add_pending_change\<close> and \<^verbatim>\<open>get_pending_changes\<close>. Each runs its update
  under \<^verbatim>\<open>sync_lock\<close>, so a run of the two threads is a sequence of these
  operations, one after the other.
\<close>

definition add_pending_change :: "CsyncDaemon \<Rightarrow> RawPath \<Rightarrow> CsyncDaemon" where
  "add_pending_change d file_path =
     (let p = coerce_path d file_path
      in d\<lparr>pending_changes := insert p (pending_changes d)\<rparr>)"

definition get_pending_changes :: "CsyncDaemon \<Rightarrow> path set \<times> CsyncDaemon" where
  "get_pending_changes d =
     (let changes = pending_changes d
      in (changes, d\<lparr>pending_changes := {}\<rparr>))"

datatype coalescer_op = Record RawPath | Drain

text \<open>
  A sequence of operations; the result list has one entry per operation, what the
  call returned: nothing for a record, the drained set for a drain.
\<close>

fun run_ops :: "coalescer_op list \<Rightarrow> CsyncDaemon \<Rightarrow> path set option list \<times> CsyncDaemon" where
  "run_ops [] d = ([], d)"
| "run_ops (Record fp # ops) d =
     (let (rs, d') = run_ops ops (add_pending_change d fp) in (None # rs, d'))"
| "run_ops (Drain # ops) d =
     (let (changes, d1) = get_pending_changes d;
          (rs, d') = run_ops ops d1
      in (Some changes # rs, d'))"

section \<open>Process registry\<close>

record DaemonInfo =
  pid :: nat
  di_local_path :: string
  di_remote_target :: string
  config_file :: string
  di_signature :: string
  started_at :: real
  di_sync_count :: int
  last_sync :: "real option"

text \<open>
  What the daemon process does, in program order, next to the state it changes.
  Console output is left out.
\<close>

datatype action =
    ObserverSchedule string
  | Fork
  | Setsid
  | StartDaemonCall DaemonInfo
  | SetupSignalHandlers string
  | ObserverStart
  | SyncThreadStart
  | Drained "path set"
  | RsyncPush
  | UpdateStatsCall string real int
  | CloseStdio
  | ObserverStop
  | CleanupCall string

record world =
  registry :: "DaemonInfo list"
  live_pids :: "nat set"
  trace :: "action list"

definition log_action :: "action \<Rightarrow> world \<Rightarrow> world" where
  "log_action a w = w\<lparr>trace := trace w @ [a]\<rparr>"

text \<open>
  The console writes to \<^verbatim>\<open>sys.stdout\<close>. The detached daemon closes
  \<^verbatim>\<open>sys.stdout\<close> and \<^verbatim>\<open>sys.stderr\<close> after its initial sync (the action
  \<open>CloseStdio\<close>); from then on \<^verbatim>\<open>console.print\<close> raises \<^verbatim>\<open>ValueError\<close>
  (I/O operation on closed file).
\<close>

definition console_open :: "world \<Rightarrow> bool" where
  "console_open w = (CloseStdio \<notin> set (trace w))"

definition console_print :: "world \<Rightarrow> py_error + unit" where
  "console_print w = (if console_open w then Inr () else Inl ValueError)"

text \<open>
  Modelled from the spec: the \<^verbatim>\<open>ProcessManager\<close> of \<^verbatim>\<open>process_manager.py\<close>
  is not among the sources. \<^verbatim>\<open>get_daemon_by_path\<close> is the spec's lookupByPath: it
  returns a record for the path only if its process id is live, and ignores stale ones.
\<close>

definition get_daemon_by_path :: "world \<Rightarrow> string \<Rightarrow> DaemonInfo option" where
  "get_daemon_by_path w p =
     find (\<lambda>r. di_local_path r = p \<and> pid r \<in> live_pids w) (registry w)"

text \<open>
  Modelled from the spec: \<^verbatim>\<open>start_daemon\<close> is the spec's register. It fails if a
  live record exists for the same canonical path; otherwise it persists the record under
  its signature.
\<close>

definition start_daemon :: "DaemonInfo \<Rightarrow> world \<Rightarrow> bool \<times> world" where
  "start_daemon info w =
     (let w1 = log_action (StartDaemonCall info) w
      in case get_daemon_by_path w (di_local_path info) of
           Some existing \<Rightarrow> (False, w1)
         | None \<Rightarrow>
             (True, w1\<lparr>registry :=
                filter (\<lambda>r. di_signature r \<noteq> di_signature info) (registry w1) @ [info]\<rparr>))"

text \<open>
  Modelled from the spec: \<^verbatim>\<open>update_daemon_stats\<close> is the spec's updateStats, a
  best-effort update of an existing record and nothing if the record has disappeared.
\<close>

definition update_daemon_stats :: "string \<Rightarrow> real \<Rightarrow> int \<Rightarrow> world \<Rightarrow> world" where
  "update_daemon_stats p t n w =
     (log_action (UpdateStatsCall p t n) w)\<lparr>registry :=
        map (\<lambda>r. if di_local_path r = p then r\<lparr>last_sync := Some t, di_sync_count := n\<rparr> else r)
          (registry w)\<rparr>"

text \<open>
  Modelled from the spec: \<^verbatim>\<open>cleanup_daemon_files\<close> is the spec's unregister; it
  removes the record of the signature and is idempotent.
\<close>

definition cleanup_daemon_files :: "string \<Rightarrow> world \<Rightarrow> world" where
  "cleanup_daemon_files sig w =
     (log_action (CleanupCall sig) w)\<lparr>registry :=
        filter (\<lambda>r. di_signature r \<noteq> sig) (registry w)\<rparr>"

section \<open>Sync executor\<close>

text \<open>
  \<^verbatim>\<open>RsyncWrapper.push\<close>: what \<^verbatim>\<open>subprocess.run(cmd, check=True)\<close> does decides
  the result. The two exceptions the wrapper catches give \<^verbatim>\<open>False\<close>; any other
  exception leaves \<^verbatim>\<open>push\<close>.
\<close>

datatype proc_result = Completed | CalledProcessError int | FileNotFoundError | ProcRaises py_error

fun push :: "proc_result \<Rightarrow> py_error + bool" where
  "push Completed = Inr True"
| "push (CalledProcessError returncode) = Inr False"
| "push FileNotFoundError = Inr False"
| "push (ProcRaises e) = Inl e"

text \<open>
  The surroundings of one \<^verbatim>\<open>perform_sync\<close> call: the outcome of the rsync process
  and the value \<^verbatim>\<open>time.time()\<close> returns after it.
\<close>

record sync_env =
  proc :: proc_result
  clock :: real

text \<open>
  \<^verbatim>\<open>perform_sync\<close>. The whole body is inside \<^verbatim>\<open>try\<close>, and
  \<^verbatim>\<open>except Exception\<close> returns \<^verbatim>\<open>False\<close>, so the result is always a boolean.
  The listing of the changed files on the console is left out.
\<close>

definition perform_sync :: "sync_env \<Rightarrow> CsyncDaemon \<times> world \<Rightarrow> bool \<times> CsyncDaemon \<times> world" where
  "perform_sync env s =
     (case s of (d, w) \<Rightarrow>
        let (changes, d1) = get_pending_changes d;
            w1 = log_action (Drained changes) w;
            w2 = log_action RsyncPush w1
        in case push (proc env) of
             Inl e \<Rightarrow> (False, d1, w2)
           | Inr success \<Rightarrow>
               if success then
                 let d2 = d1\<lparr>sync_count := sync_count d1 + 1\<rparr>;
                     d3 = d2\<lparr>last_sync_time := clock env\<rparr>;
                     w3 = update_daemon_stats (as_posix (local_path d3)) (last_sync_time d3)
                            (sync_count d3) w2
                 in (success, d3, w3)
               else (success, d1, w2))"

section \<open>Scheduler loop\<close>

text \<open>
  The call \<^verbatim>\<open>self.perform_sync()\<close> as the scheduler thread makes it, with the
  console of the process. With an open console every print succeeds and the call is
  \<open>perform_sync\<close>. With a closed console the pending set is drained, the first
  \<^verbatim>\<open>console.print\<close> inside \<^verbatim>\<open>try\<close> raises, and the handler
  \<^verbatim>\<open>except Exception\<close> prints in turn: its exception leaves \<^verbatim>\<open>perform_sync\<close>.
\<close>

definition perform_sync_call :: "sync_env \<Rightarrow> CsyncDaemon \<times> world \<Rightarrow> (py_error + bool) \<times> CsyncDaemon \<times> world" where
  "perform_sync_call env s =
     (case s of (d, w) \<Rightarrow>
        case console_print w of
          Inr u \<Rightarrow> (case perform_sync env s of (b, s') \<Rightarrow> (Inr b, s'))
        | Inl e \<Rightarrow>
            let (changes, d1) = get_pending_changes d;
                w1 = log_action (Drained changes) w
            in case console_print w1 of
                 Inr u \<Rightarrow> (Inr False, d1, w1)
               | Inl e' \<Rightarrow> (Inl e', d1, w1))"

text \<open>
  One pass through the body of \<^verbatim>\<open>sync_loop\<close>: it has slept 1 second, or its
  handler has printed and slept 5 seconds, or the print of the handler has raised and
  the exception leaves the loop.
\<close>

datatype tick_result = Slept real | Raised py_error

definition sync_tick :: "sync_env \<Rightarrow> real \<Rightarrow> CsyncDaemon \<times> world \<Rightarrow> tick_result \<times> CsyncDaemon \<times> world" where
  "sync_tick env current_time s =
     (if should_sync_now (fst s) current_time then
        (case perform_sync_call env s of
           (Inr b, s') \<Rightarrow> (Slept 1, s')
         | (Inl e, s') \<Rightarrow>
             (case console_print (snd s') of
                Inr u \<Rightarrow> (Slept 5, s')
              | Inl e' \<Rightarrow> (Raised e', s')))
      else (Slept 1, s))"

text \<open>
  The loop runs while \<^verbatim>\<open>is_running\<close> holds; only another thread clears the flag.
  The loop is given the surroundings of its next passes as a list: whether the flag was
  cleared before the pass, the clock, and the surroundings of the sync. It ends with
  \<open>Exited\<close> when it saw the flag cleared, with \<open>Died\<close> when an exception left
  it (the thread is over), and with \<open>StillLooping\<close> when the list is used up; the
  sleeps of the passes are returned in order.
\<close>

record tick_env =
  stop_requested :: bool
  tick_time :: real
  tick_sync :: sync_env

datatype loop_end = Exited | Died py_error | StillLooping

fun sync_loop :: "tick_env list \<Rightarrow> CsyncDaemon \<times> world \<Rightarrow> loop_end \<times> real list \<times> CsyncDaemon \<times> world" where
  "sync_loop [] s = (StillLooping, [], s)"
| "sync_loop (e # es) s =
     (let d0 = (if stop_requested e then (fst s)\<lparr>is_running := False\<rparr> else fst s)
      in if is_running d0 then
           (case sync_tick (tick_sync e) (tick_time e) (d0, snd s) of
              (Slept t, s1) \<Rightarrow>
                (let (fin, sleeps, s2) = sync_loop es s1
                 in (fin, t # sleeps, s2))
            | (Raised err, s1) \<Rightarrow> (Died err, [], s1))
         else (Exited, [], (d0, snd s)))"

section \<open>Daemon controller\<close>

text \<open>\<^verbatim>\<open>stop\<close>.\<close>

definition stop :: "CsyncDaemon \<times> world \<Rightarrow> CsyncDaemon \<times> world" where
  "stop s =
     (case s of (d, w) \<Rightarrow>
        let d1 = d\<lparr>is_running := False\<rparr>;
            (d2, w1) = (if observer_alive d1
                        then (d1\<lparr>observer_alive := False\<rparr>, log_action ObserverStop w)
                        else (d1, w))
        in (d2, cleanup_daemon_files (signature d2) w1))"

text \<open>
  The surroundings of one \<^verbatim>\<open>start\<close> call: the process id, the clock when the
  record is built, what \<^verbatim>\<open>os.fork()\<close> and \<^verbatim>\<open>os.setsid()\<close> do in this process,
  the surroundings of the initial sync, and how the final wait ends.
\<close>

datatype fork_outcome = ForkFails | ForkParent nat | ForkChild nat | ForkChildSetsidFails

datatype wait_outcome = Interrupted | RunningCleared | WaitsForever

record start_env =
  getpid :: nat
  start_time :: real
  fork_result :: fork_outcome
  initial_sync :: sync_env
  wait_result :: wait_outcome

datatype startup_result = EarlyReturn bool | Watching

text \<open>
  The second half of the start-up, from the comment \<^verbatim>\<open>Register daemon\<close> to the
  initial sync. In \<^verbatim>\<open>not detach or not start_daemon(...)\<close> the call is only
  evaluated when \<^verbatim>\<open>detach\<close> holds; the branch itself only prints.
\<close>

definition enter_watching :: "start_env \<Rightarrow> bool \<Rightarrow> DaemonInfo \<Rightarrow> CsyncDaemon \<times> world \<Rightarrow> CsyncDaemon \<times> world" where
  "enter_watching env detach daemon_info s =
     (case s of (d, w) \<Rightarrow>
        let w1 = (if \<not> detach then w else snd (start_daemon daemon_info w));
            w2 = log_action (SetupSignalHandlers (signature d)) w1;
            w3 = log_action ObserverStart w2;
            d1 = d\<lparr>observer_alive := True, is_running := True\<rparr>;
            w4 = log_action SyncThreadStart w3;
            (success, d2, w5) = perform_sync (initial_sync env) (d1, w4)
        in (d2, (if detach then log_action CloseStdio w5 else w5)))"

text \<open>
  The record \<^verbatim>\<open>start\<close> builds for the registry;
  \<^verbatim>\<open>getattr(self.config, "_config_file", ".csync.cfg")\<close> is the optional field of
  the configuration with its default.
\<close>

definition new_daemon_info :: "start_env \<Rightarrow> CsyncDaemon \<Rightarrow> DaemonInfo" where
  "new_daemon_info env d =
     \<lparr> pid = getpid env,
       di_local_path = as_posix (local_path d),
       di_remote_target = remote_target (config d),
       config_file = (case cfg_config_file (config d) of
                        Some f \<Rightarrow> f | None \<Rightarrow> ''.csync.cfg''),
       di_signature = signature d,
       started_at = start_time env,
       di_sync_count = 0,
       last_sync = None \<rparr>"

text \<open>
  \<^verbatim>\<open>start\<close> up to the final wait: either the call returns early, or the process
  is watching.
\<close>

definition start_up :: "start_env \<Rightarrow> bool \<Rightarrow> CsyncDaemon \<times> world \<Rightarrow> startup_result \<times> CsyncDaemon \<times> world" where
  "start_up env detach s =
     (case s of (d, w) \<Rightarrow>
        case get_daemon_by_path w (as_posix (local_path d)) of
          Some existing \<Rightarrow> (EarlyReturn False, d, w)
        | None \<Rightarrow>
            let d1 = d\<lparr>observer_watches := observer_watches d @ [as_posix (local_path d)]\<rparr>;
                w1 = log_action (ObserverSchedule (as_posix (local_path d))) w;
                daemon_info = new_daemon_info env d
            in if detach then
                 (case fork_result env of
                    ForkFails \<Rightarrow> (EarlyReturn False, d1, w1)
                  | ForkParent child \<Rightarrow>
                      (EarlyReturn True, d1,
                       snd (start_daemon (daemon_info\<lparr>pid := child\<rparr>) (log_action Fork w1)))
                  | ForkChildSetsidFails \<Rightarrow> (EarlyReturn False, d1, log_action Fork w1)
                  | ForkChild own \<Rightarrow>
                      (Watching,
                       enter_watching env detach (daemon_info\<lparr>pid := own\<rparr>)
                         (d1, log_action Setsid (log_action Fork w1))))
               else (Watching, enter_watching env detach daemon_info (d1, w1)))"

datatype start_result = Returned bool | NeverReturns

text \<open>
  \<^verbatim>\<open>start\<close>: after the start-up the main thread sleeps while \<^verbatim>\<open>is_running\<close>
  holds, until another thread clears the flag or the process is interrupted, and then
  calls \<^verbatim>\<open>stop\<close>. The passes of the scheduler thread are those of
  \<open>sync_loop\<close>; they are not interleaved here.
\<close>

definition start :: "start_env \<Rightarrow> bool \<Rightarrow> CsyncDaemon \<times> world \<Rightarrow> start_result \<times> CsyncDaemon \<times> world" where
  "start env detach s =
     (case start_up env detach s of
        (EarlyReturn b, s1) \<Rightarrow> (Returned b, s1)
      | (Watching, s1) \<Rightarrow>
          (case wait_result env of
             WaitsForever \<Rightarrow> (NeverReturns, s1)
           | Interrupted \<Rightarrow> (Returned True, stop s1)
           | RunningCleared \<Rightarrow> (Returned True, stop s1)))"

section \<open>Notions used in the statements\<close>

text \<open>
  The paths recorded since the last drain in a sequence of operations, in the words of
  the spec: the records after which no drain follows.
\<close>

definition window :: "CsyncDaemon \<Rightarrow> coalescer_op list \<Rightarrow> path set" where
  "window d ops = {coerce_path d fp | fp i. i < length ops \<and> ops ! i = Record fp
                     \<and> (\<forall>k. i < k \<and> k < length ops \<longrightarrow> ops ! k \<noteq> Drain)}"

text \<open>
  What \<^verbatim>\<open>resolve()\<close> yields: an absolute path whose components are neither empty
  nor \<^verbatim>\<open>.\<close> nor \<^verbatim>\<open>..\<close>. The daemon's root is such a path.
\<close>

definition clean_component :: "string \<Rightarrow> bool" where
  "clean_component x = (x \<noteq> [] \<and> x \<noteq> ''.'' \<and> x \<noteq> ''..'')"

definition resolved :: "path \<Rightarrow> bool" where
  "resolved p = (is_absolute p \<and> list_all clean_component (parts p))"

section \<open>Concrete inputs\<close>

definition example_config :: "string list option \<Rightarrow> CsyncConfig" where
  "example_config pats =
     \<lparr> cfg_local_path = ''/home/u/proj/'', remote_target = ''host:/srv/proj/'',
       exclude_patterns = pats, cfg_config_file = None \<rparr>"

definition example_daemon :: "string list option \<Rightarrow> CsyncDaemon" where
  "example_daemon pats = CsyncDaemon_init (\<lambda>p. ''sig:'' @ p) (example_config pats)"

definition example_world :: world where
  "example_world = \<lparr> registry = [], live_pids = {100, 200}, trace = [] \<rparr>"

definition example_path :: path where
  "example_path = PosixPath True [''home'', ''u'', ''proj'', ''a.py'']"

definition example_world_running :: world where
  "example_world_running =
     \<lparr> registry =
         [\<lparr> pid = 100, di_local_path = ''/home/u/proj'',
            di_remote_target = ''host:/srv/proj/'', config_file = ''.csync.cfg'',
            di_signature = ''sig:/home/u/proj'', started_at = 500,
            di_sync_count = 3, last_sync = Some 900 \<rparr>],
       live_pids = {100, 200}, trace = [] \<rparr>"

definition example_start_env :: "fork_outcome \<Rightarrow> start_env" where
  "example_start_env f =
     \<lparr> getpid = 100, start_time = 1000, fork_result = f,
       initial_sync = \<lparr>proc = Completed, clock = 1001\<rparr>,
       wait_result = WaitsForever \<rparr>"

definition example_tick :: tick_env where
  "example_tick =
     \<lparr> stop_requested = False, tick_time = 2000,
       tick_sync = \<lparr>proc = Completed, clock = 2001\<rparr> \<rparr>"

definition example_detached :: "CsyncDaemon \<times> world" where
  "example_detached =
     snd (start_up (example_start_env (ForkChild 200)) True (example_daemon None, example_world))"

definition example_ops :: "coalescer_op list" where
  "example_ops = [Record (RawStr ''a.py''), Drain, Record (RawStr ''b.py''), Drain]"

definition example_backslash_rule :: string where
  "example_backslash_rule = ''build'' @ [CHR 0x5C]"

definition example_backslash_dir :: string where
  "example_backslash_dir = ''a'' @ [CHR 0x5C] @ ''b''"

section \<open>The sync executor\<close>

text \<open>
  C3. \<^verbatim>\<open>perform_sync\<close> drains the coalescer before it invokes the transfer, and
  the drained changes are not queued again whatever the transfer does: after the call
  the pending set is empty, and after a transfer that fails or raises the state is the
  old one with the pending set emptied.
\<close>

theorem perform_sync_drains:
  "pending_changes (fst (snd (perform_sync env (d, w)))) = {}
   \<and> take 2 (drop (length (trace w)) (trace (snd (snd (perform_sync env (d, w))))))
       = [Drained (pending_changes d), RsyncPush]
   \<and> (push (proc env) \<noteq> Inr True \<longrightarrow>
        perform_sync env (d, w)
          = (False, d\<lparr>pending_changes := {}\<rparr>,
             w\<lparr>trace := trace w @ [Drained (pending_changes d), RsyncPush]\<rparr>))"
  by (cases "push (proc env)")
     (simp_all add: perform_sync_def get_pending_changes_def log_action_def
        update_daemon_stats_def Let_def)

theorem perform_sync_drains_witness:
  "push (ProcRaises OtherException) \<noteq> Inr True
   \<and> pending_changes (fst (snd (perform_sync \<lparr>proc = ProcRaises OtherException, clock = 2000\<rparr>
        ((example_daemon None)\<lparr>pending_changes := {example_path}\<rparr>, example_world)))) = {}
   \<and> trace (snd (snd (perform_sync \<lparr>proc = ProcRaises OtherException, clock = 2000\<rparr>
        ((example_daemon None)\<lparr>pending_changes := {example_path}\<rparr>, example_world))))
       = [Drained {example_path}, RsyncPush]"
  using perform_sync_drains
    [of "\<lparr>proc = ProcRaises OtherException, clock = 2000\<rparr>"
        "(example_daemon None)\<lparr>pending_changes := {example_path}\<rparr>" example_world]
  by (simp add: example_world_def)

text \<open>
  C4. When the transfer succeeds, \<^verbatim>\<open>perform_sync\<close> returns true, adds one to
  \<^verbatim>\<open>sync_count\<close>, sets \<^verbatim>\<open>last_sync_time\<close> to the current time and pushes the new
  statistics to the registry under the daemon's canonical path. When the transfer
  fails (returns false or raises), it returns false, leaves \<^verbatim>\<open>sync_count\<close> and
  \<^verbatim>\<open>last_sync_time\<close> as they were, and makes no registry update.
\<close>

theorem perform_sync_statistics:
  "(push (proc env) = Inr True \<longrightarrow>
      fst (perform_sync env (d, w)) = True
      \<and> sync_count (fst (snd (perform_sync env (d, w)))) = sync_count d + 1
      \<and> last_sync_time (fst (snd (perform_sync env (d, w)))) = clock env
      \<and> snd (snd (perform_sync env (d, w)))
          = update_daemon_stats (as_posix (local_path d)) (clock env) (sync_count d + 1)
              (w\<lparr>trace := trace w @ [Drained (pending_changes d), RsyncPush]\<rparr>))
   \<and> (push (proc env) \<noteq> Inr True \<longrightarrow>
      fst (perform_sync env (d, w)) = False
      \<and> sync_count (fst (snd (perform_sync env (d, w)))) = sync_count d
      \<and> last_sync_time (fst (snd (perform_sync env (d, w)))) = last_sync_time d
      \<and> registry (snd (snd (perform_sync env (d, w)))) = registry w
      \<and> (\<forall>p t n. UpdateStatsCall p t n
            \<notin> set (drop (length (trace w)) (trace (snd (snd (perform_sync env (d, w))))))))"
  by (cases "push (proc env)")
     (simp_all add: perform_sync_def get_pending_changes_def log_action_def
        update_daemon_stats_def Let_def)

theorem perform_sync_statistics_witness:
  "push Completed = Inr True
   \<and> sync_count (fst (snd (perform_sync \<lparr>proc = Completed, clock = 2000\<rparr>
        (example_daemon None, example_world)))) = 1
   \<and> last_sync_time (fst (snd (perform_sync \<lparr>proc = Completed, clock = 2000\<rparr>
        (example_daemon None, example_world)))) = 2000
   \<and> push (CalledProcessError 23) \<noteq> Inr True
   \<and> sync_count (fst (snd (perform_sync \<lparr>proc = CalledProcessError 23, clock = 2000\<rparr>
        (example_daemon None, example_world)))) = 0
   \<and> last_sync_time (fst (snd (perform_sync \<lparr>proc = CalledProcessError 23, clock = 2000\<rparr>
        (example_daemon None, example_world)))) = 0"
  using perform_sync_statistics
    [of "\<lparr>proc = Completed, clock = 2000\<rparr>" "example_daemon None" example_world]
    perform_sync_statistics
    [of "\<lparr>proc = CalledProcessError 23, clock = 2000\<rparr>" "example_daemon None" example_world]
  by (simp add: example_daemon_def CsyncDaemon_init_def Let_def)

section \<open>Daemon start-up\<close>

subsection \<open>Facts about the start-up\<close>

lemma log_action_simps:
  "registry (log_action a w) = registry w"
  "live_pids (log_action a w) = live_pids w"
  "trace (log_action a w) = trace w @ [a]"
  by (simp_all add: log_action_def)

lemma lookup_log: "get_daemon_by_path (log_action a w) p = get_daemon_by_path w p"
  by (simp add: get_daemon_by_path_def log_action_simps)

lemma trace_perform_sync:
  "trace (snd (snd (perform_sync env (d, w))))
     = trace w @ [Drained (pending_changes d), RsyncPush]
       @ (if push (proc env) = Inr True
          then [UpdateStatsCall (as_posix (local_path d)) (clock env) (sync_count d + 1)]
          else [])"
  by (cases "push (proc env)")
     (simp_all add: perform_sync_def get_pending_changes_def log_action_def
        update_daemon_stats_def Let_def)

lemma trace_start_daemon:
  "trace (snd (start_daemon info w)) = trace w @ [StartDaemonCall info]"
  by (simp add: start_daemon_def log_action_def Let_def split: option.splits)

lemma trace_enter_watching:
  "trace (snd (enter_watching env detach info (d, w)))
     = trace w @ (if detach then [StartDaemonCall info] else [])
       @ [SetupSignalHandlers (signature d), ObserverStart, SyncThreadStart,
          Drained (pending_changes d), RsyncPush]
       @ (if push (proc (initial_sync env)) = Inr True
          then [UpdateStatsCall (as_posix (local_path d)) (clock (initial_sync env)) (sync_count d + 1)]
          else [])
       @ (if detach then [CloseStdio] else [])"
  by (simp add: enter_watching_def Let_def split_beta trace_perform_sync log_action_simps
        trace_start_daemon)

lemma find_map_stats:
  "find (\<lambda>r. di_local_path r = p \<and> pid r \<in> L)
     (map (\<lambda>r. if di_local_path r = q then r\<lparr>last_sync := Some t, di_sync_count := n\<rparr> else r) rs)
   = map_option (\<lambda>r. if di_local_path r = q then r\<lparr>last_sync := Some t, di_sync_count := n\<rparr> else r)
       (find (\<lambda>r. di_local_path r = p \<and> pid r \<in> L) rs)"
  by (induction rs) auto

lemma lookup_perform_sync:
  "get_daemon_by_path (snd (snd (perform_sync env (d, w)))) p = None
     \<longleftrightarrow> get_daemon_by_path w p = None"
  by (cases "push (proc env)")
     (simp_all add: perform_sync_def get_pending_changes_def log_action_def
        update_daemon_stats_def Let_def get_daemon_by_path_def find_map_stats)

lemma lookup_enter_watching_fg:
  "get_daemon_by_path (snd (enter_watching env False info (d, w))) p = None
     \<longleftrightarrow> get_daemon_by_path w p = None"
  by (simp add: enter_watching_def Let_def split_beta lookup_perform_sync lookup_log)

lemma keys_perform_sync:
  "map (\<lambda>r. (pid r, di_local_path r)) (registry (snd (snd (perform_sync env (d, w)))))
     = map (\<lambda>r. (pid r, di_local_path r)) (registry w)"
  by (cases "push (proc env)")
     (simp_all add: perform_sync_def get_pending_changes_def log_action_def
        update_daemon_stats_def Let_def comp_def)

lemma registry_start_daemon:
  "get_daemon_by_path w (di_local_path info) = None \<Longrightarrow>
   registry (snd (start_daemon info w))
     = filter (\<lambda>r. di_signature r \<noteq> di_signature info) (registry w) @ [info]"
  by (simp add: start_daemon_def Let_def log_action_simps)

lemma enter_watching_sync_once:
  "\<exists>pre post. trace (snd (enter_watching env detach info (d, w)))
       = trace w @ pre @ [ObserverStart, SyncThreadStart, Drained (pending_changes d), RsyncPush] @ post
     \<and> RsyncPush \<notin> set pre \<and> RsyncPush \<notin> set post"
proof -
  let ?pre = "(if detach then [StartDaemonCall info] else []) @ [SetupSignalHandlers (signature d)]"
  let ?post = "(if push (proc (initial_sync env)) = Inr True
          then [UpdateStatsCall (as_posix (local_path d)) (clock (initial_sync env)) (sync_count d + 1)]
          else [])
       @ (if detach then [CloseStdio] else [])"
  have "trace (snd (enter_watching env detach info (d, w)))
       = trace w @ ?pre @ [ObserverStart, SyncThreadStart, Drained (pending_changes d), RsyncPush] @ ?post"
    by (simp add: trace_enter_watching)
  moreover have "RsyncPush \<notin> set ?pre" "RsyncPush \<notin> set ?post" by simp_all
  ultimately show ?thesis by blast
qed

lemma start_up_watching_iff:
  "fst (start_up env detach (d, w)) = Watching
     \<longleftrightarrow> (get_daemon_by_path w (as_posix (local_path d)) = None
          \<and> (detach \<longrightarrow> (\<exists>own. fork_result env = ForkChild own)))"
  by (simp add: start_up_def Let_def split: option.splits fork_outcome.splits)

lemma start_up_sync_once:
  assumes "fst (start_up env detach (d, w)) = Watching"
  shows "\<exists>pre post. trace (snd (snd (start_up env detach (d, w))))
       = trace w @ pre @ [ObserverStart, SyncThreadStart, Drained (pending_changes d), RsyncPush] @ post
     \<and> RsyncPush \<notin> set pre \<and> RsyncPush \<notin> set post"
proof -
  from assms have n: "get_daemon_by_path w (as_posix (local_path d)) = None"
    and f: "detach \<longrightarrow> (\<exists>own. fork_result env = ForkChild own)"
    by (simp_all add: start_up_watching_iff)
  let ?d1 = "d\<lparr>observer_watches := observer_watches d @ [as_posix (local_path d)]\<rparr>"
  let ?w1 = "log_action (ObserverSchedule (as_posix (local_path d))) w"
  show ?thesis
  proof (cases detach)
    case False
    obtain pre post where e: "trace (snd (enter_watching env False (new_daemon_info env d) (?d1, ?w1)))
       = trace ?w1 @ pre @ [ObserverStart, SyncThreadStart, Drained (pending_changes ?d1), RsyncPush] @ post"
      "RsyncPush \<notin> set pre" "RsyncPush \<notin> set post"
      using enter_watching_sync_once by blast
    have "trace (snd (snd (start_up env detach (d, w))))
       = trace w @ (ObserverSchedule (as_posix (local_path d)) # pre)
           @ [ObserverStart, SyncThreadStart, Drained (pending_changes d), RsyncPush] @ post"
      using False n e(1) by (simp add: start_up_def Let_def log_action_simps)
    moreover have "RsyncPush \<notin> set (ObserverSchedule (as_posix (local_path d)) # pre)"
      using e(2) by simp
    ultimately show ?thesis using e(3) by blast
  next
    case True
    with f obtain own where o: "fork_result env = ForkChild own" by blast
    let ?w2 = "log_action Setsid (log_action Fork ?w1)"
    obtain pre post where e: "trace (snd (enter_watching env True ((new_daemon_info env d)\<lparr>pid := own\<rparr>) (?d1, ?w2)))
       = trace ?w2 @ pre @ [ObserverStart, SyncThreadStart, Drained (pending_changes ?d1), RsyncPush] @ post"
      "RsyncPush \<notin> set pre" "RsyncPush \<notin> set post"
      using enter_watching_sync_once by blast
    have "trace (snd (snd (start_up env detach (d, w))))
       = trace w @ ([ObserverSchedule (as_posix (local_path d)), Fork, Setsid] @ pre)
           @ [ObserverStart, SyncThreadStart, Drained (pending_changes d), RsyncPush] @ post"
      using True n o e(1) by (simp add: start_up_def Let_def log_action_simps)
    moreover have "RsyncPush \<notin> set ([ObserverSchedule (as_posix (local_path d)), Fork, Setsid] @ pre)"
      using e(2) by simp
    ultimately show ?thesis using e(3) by blast
  qed
qed

lemma example_local_path:
  "local_path (example_daemon pats) = PosixPath True [''home'', ''u'', ''proj'']"
  by (simp add: example_daemon_def CsyncDaemon_init_def example_config_def Let_def
        parse_path_def resolve_def)

lemma example_local_path_str: "as_posix (local_path (example_daemon pats)) = ''/home/u/proj''"
  by (simp add: example_local_path as_posix_def)

lemma find_Some_live:
  "r \<in> set rs \<Longrightarrow> P r \<Longrightarrow> \<exists>x. find P rs = Some x"
  by (induction rs) auto

subsection \<open>Refusing a second daemon\<close>

text \<open>
  C7. If the registry holds a record for the daemon's canonical local path whose
  process is live, \<^verbatim>\<open>start\<close> returns false and changes nothing: the daemon state
  and the registry are as before, and no action is taken (no watch is scheduled, no
  record is registered, no sync is performed, the process does not fork).
\<close>

theorem start_already_running:
  assumes "r \<in> set (registry w)"
    and "di_local_path r = as_posix (local_path d)"
    and "pid r \<in> live_pids w"
  shows "start env detach (d, w) = (Returned False, d, w)"
proof -
  have "\<exists>x. get_daemon_by_path w (as_posix (local_path d)) = Some x"
    unfolding get_daemon_by_path_def
    by (rule find_Some_live [OF assms(1)]) (simp add: assms)
  then show ?thesis
    by (auto simp: start_def start_up_def)
qed

theorem start_already_running_witness:
  "hd (registry example_world_running) \<in> set (registry example_world_running)
   \<and> di_local_path (hd (registry example_world_running))
       = as_posix (local_path (example_daemon None))
   \<and> pid (hd (registry example_world_running)) \<in> live_pids example_world_running
   \<and> start (example_start_env (ForkChild 200)) True (example_daemon None, example_world_running)
       = (Returned False, example_daemon None, example_world_running)"
  using start_already_running
    [of "hd (registry example_world_running)" example_world_running "example_daemon None"
        "example_start_env (ForkChild 200)" True]
  by (simp add: example_world_running_def example_local_path_str)

subsection \<open>Registration\<close>

text \<open>
  What the start-up does about registration when no live record exists for the path.
  In foreground mode \<^verbatim>\<open>start_daemon\<close> is not called, and a lookup of the path still
  finds nothing once the process is watching. In detached mode the invoking process
  registers the record with the child's process id, and the detached child calls
  \<^verbatim>\<open>start_daemon\<close> with its own process id before it starts the observer.
\<close>

lemma start_registration_by_mode:
  assumes "get_daemon_by_path w (as_posix (local_path d)) = None"
  shows "fst (start_up env False (d, w)) = Watching
     \<and> (\<forall>i. StartDaemonCall i
           \<notin> set (drop (length (trace w)) (trace (snd (snd (start_up env False (d, w)))))))
     \<and> get_daemon_by_path (snd (snd (start_up env False (d, w)))) (as_posix (local_path d)) = None
     \<and> (fork_result env = ForkParent child \<longrightarrow>
          fst (start_up env True (d, w)) = EarlyReturn True
          \<and> trace (snd (snd (start_up env True (d, w))))
              = trace w @ [ObserverSchedule (as_posix (local_path d)), Fork,
                           StartDaemonCall ((new_daemon_info env d)\<lparr>pid := child\<rparr>)]
          \<and> registry (snd (snd (start_up env True (d, w))))
              = filter (\<lambda>r. di_signature r \<noteq> signature d) (registry w)
                  @ [(new_daemon_info env d)\<lparr>pid := child\<rparr>])
     \<and> (fork_result env = ForkChild own \<longrightarrow>
          fst (start_up env True (d, w)) = Watching
          \<and> take 4 (drop (length (trace w)) (trace (snd (snd (start_up env True (d, w))))))
              = [ObserverSchedule (as_posix (local_path d)), Fork, Setsid,
                 StartDaemonCall ((new_daemon_info env d)\<lparr>pid := own\<rparr>)]
          \<and> (own, as_posix (local_path d))
              \<in> set (map (\<lambda>r. (pid r, di_local_path r))
                       (registry (snd (snd (start_up env True (d, w)))))))"
proof -
  have fg: "fst (start_up env False (d, w)) = Watching
     \<and> (\<forall>i. StartDaemonCall i
           \<notin> set (drop (length (trace w)) (trace (snd (snd (start_up env False (d, w)))))))
     \<and> get_daemon_by_path (snd (snd (start_up env False (d, w)))) (as_posix (local_path d)) = None"
    using assms
    by (simp add: start_up_def Let_def trace_enter_watching lookup_enter_watching_fg
          lookup_log log_action_simps)
  have i: "di_local_path ((new_daemon_info env d)\<lparr>pid := p\<rparr>) = as_posix (local_path d)"
       "di_signature ((new_daemon_info env d)\<lparr>pid := p\<rparr>) = signature d"
       "pid ((new_daemon_info env d)\<lparr>pid := p\<rparr>) = p" for p
    by (simp_all add: new_daemon_info_def)
  have parent: "fst (start_up env True (d, w)) = EarlyReturn True
          \<and> trace (snd (snd (start_up env True (d, w))))
              = trace w @ [ObserverSchedule (as_posix (local_path d)), Fork,
                           StartDaemonCall ((new_daemon_info env d)\<lparr>pid := child\<rparr>)]
          \<and> registry (snd (snd (start_up env True (d, w))))
              = filter (\<lambda>r. di_signature r \<noteq> signature d) (registry w)
                  @ [(new_daemon_info env d)\<lparr>pid := child\<rparr>]"
    if "fork_result env = ForkParent child"
    using assms that i
    by (simp add: start_up_def Let_def trace_start_daemon registry_start_daemon lookup_log
          log_action_simps)
  have r: "map (\<lambda>r. (pid r, di_local_path r))
             (registry (snd (enter_watching env True info (d', w'))))
           = map (\<lambda>r. (pid r, di_local_path r)) (registry (snd (start_daemon info w')))"
    for info d' w'
    by (simp add: enter_watching_def Let_def split_beta keys_perform_sync log_action_simps)
  have child: "fst (start_up env True (d, w)) = Watching
          \<and> take 4 (drop (length (trace w)) (trace (snd (snd (start_up env True (d, w))))))
              = [ObserverSchedule (as_posix (local_path d)), Fork, Setsid,
                 StartDaemonCall ((new_daemon_info env d)\<lparr>pid := own\<rparr>)]
          \<and> (own, as_posix (local_path d))
              \<in> set (map (\<lambda>r. (pid r, di_local_path r))
                       (registry (snd (snd (start_up env True (d, w))))))"
    if "fork_result env = ForkChild own"
    using assms that i
    by (simp add: start_up_def Let_def trace_enter_watching r registry_start_daemon
          lookup_log log_action_simps del: set_map)
  from fg parent child show ?thesis by blast
qed

text \<open>
  C8. In every start mode, foreground mode included, the controller is to register a
  record with the registry before it enters the watching loop, so that a foreground
  daemon is visible to status queries and stop requests from other processes. The code
  misses this in foreground mode: under the comment \<^verbatim>\<open>Register daemon\<close> the call of
  \<^verbatim>\<open>start_daemon\<close> stands behind \<^verbatim>\<open>not detach or\<close> and is not evaluated when
  \<^verbatim>\<open>detach\<close> is false. Started in the foreground with an empty registry, the process
  is watching and has synced, the registry is still empty, and no
  \<^verbatim>\<open>start_daemon\<close> call is among its actions.
\<close>

theorem foreground_not_registered:
  "fst (start_up (example_start_env ForkFails) False (example_daemon None, example_world))
     = Watching
   \<and> registry (snd (snd (start_up (example_start_env ForkFails) False
        (example_daemon None, example_world)))) = []
   \<and> trace (snd (snd (start_up (example_start_env ForkFails) False
        (example_daemon None, example_world))))
       = [ObserverSchedule ''/home/u/proj'', SetupSignalHandlers ''sig:/home/u/proj'',
          ObserverStart, SyncThreadStart, Drained {}, RsyncPush,
          UpdateStatsCall ''/home/u/proj'' 1001 1]"
proof -
  have s: "signature (example_daemon None) = ''sig:/home/u/proj''"
          "pending_changes (example_daemon None) = {}"
          "sync_count (example_daemon None) = 0"
    by (simp_all add: example_daemon_def CsyncDaemon_init_def example_config_def Let_def
          parse_path_def resolve_def as_posix_def)
  have n: "get_daemon_by_path example_world ''/home/u/proj'' = None"
    by (simp add: get_daemon_by_path_def example_world_def)
  have "registry (snd (enter_watching env False info (d, w))) = []" if "registry w = []"
    for env info d w
    using that
    by (cases "push (proc (initial_sync env))")
       (simp_all add: enter_watching_def perform_sync_def get_pending_changes_def
          update_daemon_stats_def log_action_simps Let_def split_beta)
  then show ?thesis
    using n s
    by (simp add: start_up_def Let_def example_local_path_str trace_enter_watching
          log_action_simps example_start_env_def example_world_def)
qed

subsection \<open>The initial sync\<close>

text \<open>
  C10. A new daemon has last sync time 0 and no pending change, so the forced trigger
  holds at every clock value above 300, with an empty pending set. Every \<^verbatim>\<open>start\<close>
  call that goes on as the daemon (no live record for the path and, in detached mode,
  the child of the fork) performs exactly one sync during start-up, right after it has
  started the observer and the scheduler thread, whatever the pending set holds.
\<close>

theorem initial_sync_pass:
 "last_sync_time (CsyncDaemon_init g cfg) = 0
  \<and> pending_changes (CsyncDaemon_init g cfg) = {}
  \<and> (300 < now \<longrightarrow> should_sync_now (CsyncDaemon_init g cfg) now)
  \<and> (fst (start_up env detach (d, w)) = Watching
       \<longleftrightarrow> (get_daemon_by_path w (as_posix (local_path d)) = None
          \<and> (detach \<longrightarrow> (\<exists>own. fork_result env = ForkChild own))))
  \<and> (fst (start_up env detach (d, w)) = Watching \<longrightarrow>
       (\<exists>pre post. trace (snd (snd (start_up env detach (d, w))))
          = trace w @ pre
              @ [ObserverStart, SyncThreadStart, Drained (pending_changes d), RsyncPush] @ post
          \<and> RsyncPush \<notin> set pre \<and> RsyncPush \<notin> set post))"
  using start_up_sync_once [of env detach d w] start_up_watching_iff [of env detach d w]
  by (simp add: CsyncDaemon_init_def Let_def should_sync_now_def)

theorem initial_sync_pass_witness:
  "(300::real) < 1700000000
   \<and> should_sync_now (example_daemon None) 1700000000
   \<and> fst (start_up (example_start_env (ForkChild 200)) True (example_daemon None, example_world))
       = Watching
   \<and> (\<exists>pre post.
        trace (snd (snd (start_up (example_start_env (ForkChild 200)) True
                 (example_daemon None, example_world))))
          = pre @ [ObserverStart, SyncThreadStart, Drained {}, RsyncPush] @ post
        \<and> RsyncPush \<notin> set pre \<and> RsyncPush \<notin> set post)"
  using initial_sync_pass
    [of "\<lambda>p. ''sig:'' @ p" "example_config None" 1700000000
        "example_start_env (ForkChild 200)" True "example_daemon None" example_world]
  by (simp add: example_daemon_def get_daemon_by_path_def example_world_def
        example_start_env_def CsyncDaemon_init_def Let_def)

section \<open>The change coalescer\<close>

lemma coerce_path_cong: "local_path d = local_path d' \<Longrightarrow> coerce_path d fp = coerce_path d' fp"
  by (simp add: coerce_path_def Let_def)

lemma run_ops_local_path: "local_path (snd (run_ops ops d)) = local_path d"
proof (induction ops arbitrary: d)
  case Nil
  then show ?case by simp
next
  case (Cons x xs)
  then show ?case
    by (cases x) (simp_all add: split_beta add_pending_change_def get_pending_changes_def Let_def)
qed

lemma run_ops_length: "length (fst (run_ops ops d)) = length ops"
proof (induction ops arbitrary: d)
  case Nil
  then show ?case by simp
next
  case (Cons x xs)
  then show ?case by (cases x) (simp_all add: split_beta Let_def)
qed

lemma run_ops_append:
  "run_ops (xs @ ys) d =
     (fst (run_ops xs d) @ fst (run_ops ys (snd (run_ops xs d))),
      snd (run_ops ys (snd (run_ops xs d))))"
proof (induction xs arbitrary: d)
  case Nil
  then show ?case by simp
next
  case (Cons x xs)
  then show ?case by (cases x) (simp_all add: split_beta Let_def)
qed

lemma window_Nil: "window d [] = {}"
  by (simp add: window_def)

lemma window_snoc_Drain: "window d (ops @ [Drain]) = {}"
proof -
  have "\<exists>k. i < k \<and> k < length (ops @ [Drain]) \<and> (ops @ [Drain]) ! k = Drain"
    if "i < length (ops @ [Drain])" "(ops @ [Drain]) ! i = Record fp" for i fp
  proof (cases "i = length ops")
    case True
    with that(2) show ?thesis by simp
  next
    case False
    with that(1) have "i < length ops" by simp
    then show ?thesis by (intro exI [of _ "length ops"]) simp
  qed
  then show ?thesis
    unfolding window_def by blast
qed

lemma window_snoc_Record:
  "window d (ops @ [Record fp]) = insert (coerce_path d fp) (window d ops)"
proof (rule set_eqI, rule iffI)
  fix p assume "p \<in> window d (ops @ [Record fp])"
  then obtain fq i where h: "p = coerce_path d fq" "i < Suc (length ops)"
    "(ops @ [Record fp]) ! i = Record fq"
    "\<forall>k. i < k \<and> k < Suc (length ops) \<longrightarrow> (ops @ [Record fp]) ! k \<noteq> Drain"
    by (auto simp: window_def)
  show "p \<in> insert (coerce_path d fp) (window d ops)"
  proof (cases "i = length ops")
    case True
    with h show ?thesis by simp
  next
    case False
    with h(2) have il: "i < length ops" by simp
    with h(3) have "ops ! i = Record fq" by (simp add: nth_append)
    moreover have "\<forall>k. i < k \<and> k < length ops \<longrightarrow> ops ! k \<noteq> Drain"
    proof (intro allI impI)
      fix k assume k: "i < k \<and> k < length ops"
      with h(4) have "(ops @ [Record fp]) ! k \<noteq> Drain" by simp
      with k show "ops ! k \<noteq> Drain" by (simp add: nth_append)
    qed
    ultimately have "p \<in> window d ops" using h(1) il by (auto simp: window_def)
    then show ?thesis by simp
  qed
next
  fix p assume "p \<in> insert (coerce_path d fp) (window d ops)"
  then consider "p = coerce_path d fp" | "p \<in> window d ops" by auto
  then show "p \<in> window d (ops @ [Record fp])"
  proof cases
    case 1
    have "(ops @ [Record fp]) ! length ops = Record fp" by simp
    with 1 show ?thesis
      unfolding window_def by (intro CollectI exI [of _ fp] exI [of _ "length ops"]) auto
  next
    case 2
    then obtain fq i where h: "p = coerce_path d fq" "i < length ops" "ops ! i = Record fq"
      "\<forall>k. i < k \<and> k < length ops \<longrightarrow> ops ! k \<noteq> Drain"
      by (auto simp: window_def)
    have "\<forall>k. i < k \<and> k < length (ops @ [Record fp]) \<longrightarrow> (ops @ [Record fp]) ! k \<noteq> Drain"
      using h(4) by (auto simp: nth_append)
    with h(1,2,3) show ?thesis
      unfolding window_def
      by (intro CollectI exI [of _ fq] exI [of _ i]) (simp add: nth_append)
  qed
qed

lemma pending_run_ops:
  "pending_changes (snd (run_ops ops d))
     = (if Drain \<in> set ops then {} else pending_changes d) \<union> window d ops"
proof (induction ops rule: rev_induct)
  case Nil
  then show ?case by (simp add: window_Nil)
next
  case (snoc x xs)
  show ?case
  proof (cases x)
    case (Record fp)
    have "coerce_path (snd (run_ops xs d)) fp = coerce_path d fp"
      by (rule coerce_path_cong) (rule run_ops_local_path)
    with snoc Record show ?thesis
      by (simp add: run_ops_append split_beta Let_def add_pending_change_def window_snoc_Record)
  next
    case Drain
    then show ?thesis
      by (simp add: run_ops_append split_beta Let_def get_pending_changes_def window_snoc_Drain)
  qed
qed

lemma run_ops_nth:
  "j < length ops \<Longrightarrow>
   fst (run_ops ops d) ! j
     = (case ops ! j of Record fp \<Rightarrow> None
        | Drain \<Rightarrow> Some (pending_changes (snd (run_ops (take j ops) d))))"
proof -
  assume j: "j < length ops"
  then have "ops = take j ops @ ops ! j # drop (Suc j) ops" by (simp add: id_take_nth_drop)
  then have "fst (run_ops ops d) ! j
     = (fst (run_ops (take j ops) d) @ fst (run_ops (ops ! j # drop (Suc j) ops) (snd (run_ops (take j ops) d)))) ! j"
    by (metis run_ops_append fst_conv)
  also have "\<dots> = fst (run_ops (ops ! j # drop (Suc j) ops) (snd (run_ops (take j ops) d))) ! 0"
    using j by (simp add: nth_append run_ops_length)
  also have "\<dots> = (case ops ! j of Record fp \<Rightarrow> None
        | Drain \<Rightarrow> Some (pending_changes (snd (run_ops (take j ops) d))))"
    by (cases "ops ! j") (simp_all add: split_beta Let_def get_pending_changes_def)
  finally show ?thesis .
qed

lemma window_take:
  "j \<le> length ops \<Longrightarrow>
   window d (take j ops) = {coerce_path d fp | fp i. i < j \<and> ops ! i = Record fp
                     \<and> (\<forall>k. i < k \<and> k < j \<longrightarrow> ops ! k \<noteq> Drain)}"
proof -
  assume j: "j \<le> length ops"
  have "(i < length (take j ops) \<and> take j ops ! i = Record fp
          \<and> (\<forall>k. i < k \<and> k < length (take j ops) \<longrightarrow> take j ops ! k \<noteq> Drain))
        = (i < j \<and> ops ! i = Record fp \<and> (\<forall>k. i < k \<and> k < j \<longrightarrow> ops ! k \<noteq> Drain))"
    for i fp
    using j by (auto simp: min_def)
  then show ?thesis by (simp add: window_def)
qed

lemma Drain_in_take: "j \<le> length ops \<Longrightarrow> Drain \<in> set (take j ops) \<longleftrightarrow> (\<exists>k<j. ops ! k = Drain)"
  by (auto simp: in_set_conv_nth)

lemma drain_result:
  assumes "j < length ops" "ops ! j = Drain"
  shows "fst (run_ops ops d) ! j
     = Some ((if \<exists>k<j. ops ! k = Drain then {} else pending_changes d)
         \<union> {coerce_path d fp | fp i. i < j \<and> ops ! i = Record fp
                     \<and> (\<forall>k. i < k \<and> k < j \<longrightarrow> ops ! k \<noteq> Drain)})"
  using assms
  by (simp add: run_ops_nth pending_run_ops window_take Drain_in_take)

lemma first_drain:
  assumes "i < j" "j < length ops" "ops ! j = Drain"
  shows "\<exists>m. i < m \<and> m < length ops \<and> ops ! m = Drain
           \<and> (\<forall>k. i < k \<and> k < m \<longrightarrow> ops ! k \<noteq> Drain)"
proof -
  let ?P = "\<lambda>m. i < m \<and> m < length ops \<and> ops ! m = Drain"
  have "?P j" using assms by simp
  then have l: "?P (LEAST m. ?P m)" by (rule LeastI)
  have "\<forall>k. i < k \<and> k < (LEAST m. ?P m) \<longrightarrow> ops ! k \<noteq> Drain"
  proof (intro allI impI notI)
    fix k assume k: "i < k \<and> k < (LEAST m. ?P m)" and d: "ops ! k = Drain"
    with l have "?P k" by simp
    then have "(LEAST m. ?P m) \<le> k" by (rule Least_le)
    with k show False by simp
  qed
  with l show ?thesis by blast
qed

lemma exactly_one_drain:
  assumes e: "pending_changes d = {}"
    and i: "i < length ops" "ops ! i = Record fp"
    and later: "i < j" "j < length ops" "ops ! j = Drain"
    and once: "\<forall>i' fp'. i' < length ops \<and> ops ! i' = Record fp'
                 \<and> coerce_path d fp' = coerce_path d fp \<longrightarrow> i' = i"
  shows "\<exists>!m. m < length ops
            \<and> (\<exists>S. fst (run_ops ops d) ! m = Some S \<and> coerce_path d fp \<in> S)"
proof -
  obtain m where m: "i < m" "m < length ops" "ops ! m = Drain"
    "\<forall>k. i < k \<and> k < m \<longrightarrow> ops ! k \<noteq> Drain"
    using first_drain [OF later] by blast
  have in_m: "\<exists>S. fst (run_ops ops d) ! m = Some S \<and> coerce_path d fp \<in> S"
  proof -
    have "coerce_path d fp \<in> {coerce_path d fq | fq i'. i' < m \<and> ops ! i' = Record fq
                     \<and> (\<forall>k. i' < k \<and> k < m \<longrightarrow> ops ! k \<noteq> Drain)}"
      using m(1,4) i(2) by (intro CollectI exI [of _ fp] exI [of _ i]) simp
    then show ?thesis
      unfolding drain_result [OF m(2,3)] by blast
  qed
  have uniq: "n = m"
    if n: "n < length ops" "fst (run_ops ops d) ! n = Some S" "coerce_path d fp \<in> S" for n S
  proof -
    have dn: "ops ! n = Drain"
      using n(1,2) by (cases "ops ! n") (simp_all add: run_ops_nth)
    with n e obtain fq i' where q: "coerce_path d fp = coerce_path d fq" "i' < n"
      "ops ! i' = Record fq" "\<forall>k. i' < k \<and> k < n \<longrightarrow> ops ! k \<noteq> Drain"
      by (auto simp: drain_result split: if_splits)
    with once n(1) have "i' = i" by simp
    with q have "i < n" and nn: "\<forall>k. i < k \<and> k < n \<longrightarrow> ops ! k \<noteq> Drain" by simp_all
    show "n = m"
    proof (rule ccontr)
      assume "n \<noteq> m"
      then consider "n < m" | "m < n" by linarith
      then show False
      proof cases
        case 1
        with m(4) \<open>i < n\<close> dn show False by simp
      next
        case 2
        with nn m(1,3) show False by simp
      qed
    qed
  qed
  show ?thesis
    using in_m m(2) uniq by (intro ex1I [of _ m]) auto
qed


lemma example_coerce:
  "coerce_path (example_daemon None) (RawStr ''a.py'') = example_path"
  "coerce_path (example_daemon None) (RawStr ''b.py'') \<noteq> example_path"
  by (simp_all add: coerce_path_def example_local_path parse_path_def joinpath_def resolve_def
        example_path_def Let_def)

lemma example_pending: "pending_changes (example_daemon None) = {}"
  by (simp add: example_daemon_def CsyncDaemon_init_def Let_def)

text \<open>
  C2. A drain returns the current pending set and leaves the pending set empty. In every
  sequence of record and drain operations, a drain returns exactly the paths recorded
  since the previous drain (together with what was pending at the start, for the first
  drain): no recorded path is lost, and none is returned again by a later drain unless
  it was recorded again. So a path that is recorded once, before some drain, appears in
  exactly one drain result.
\<close>

theorem coalescer_exactly_once:
  "get_pending_changes d = (pending_changes d, d\<lparr>pending_changes := {}\<rparr>)
   \<and> (j < length ops \<and> ops ! j = Drain \<longrightarrow>
        fst (run_ops ops d) ! j
          = Some ((if \<exists>k<j. ops ! k = Drain then {} else pending_changes d)
              \<union> {coerce_path d fp | fp i. i < j \<and> ops ! i = Record fp
                     \<and> (\<forall>k. i < k \<and> k < j \<longrightarrow> ops ! k \<noteq> Drain)})
        \<and> pending_changes (snd (run_ops (take (Suc j) ops) d)) = {})
   \<and> (pending_changes d = {} \<and> i < length ops \<and> ops ! i = Record fp
        \<and> i < j \<and> j < length ops \<and> ops ! j = Drain
        \<and> (\<forall>i' fp'. i' < length ops \<and> ops ! i' = Record fp'
               \<and> coerce_path d fp' = coerce_path d fp \<longrightarrow> i' = i) \<longrightarrow>
        (\<exists>!m. m < length ops
            \<and> (\<exists>S. fst (run_ops ops d) ! m = Some S \<and> coerce_path d fp \<in> S)))"
proof -
  have a: "get_pending_changes d = (pending_changes d, d\<lparr>pending_changes := {}\<rparr>)"
    by (simp add: get_pending_changes_def)
  have b: "pending_changes (snd (run_ops (take (Suc j) ops) d)) = {}"
    if "j < length ops" "ops ! j = Drain"
  proof -
    from that have "take (Suc j) ops = take j ops @ [Drain]"
      by (simp add: take_Suc_conv_app_nth)
    then show ?thesis
      by (simp add: pending_run_ops window_snoc_Drain)
  qed
  show ?thesis
    using a b drain_result [of j ops d] exactly_one_drain [of d i ops fp j]
    by blast
qed

theorem coalescer_exactly_once_witness:
  "fst (run_ops example_ops (example_daemon None)) ! 1 = Some {example_path}
   \<and> pending_changes (snd (run_ops (take 2 example_ops) (example_daemon None))) = {}
   \<and> (\<exists>!m. m < length example_ops
          \<and> (\<exists>S. fst (run_ops example_ops (example_daemon None)) ! m = Some S
                 \<and> example_path \<in> S))"
proof -
  have once: "\<forall>i' fp'. i' < length example_ops \<and> example_ops ! i' = Record fp'
               \<and> coerce_path (example_daemon None) fp'
                   = coerce_path (example_daemon None) (RawStr ''a.py'') \<longrightarrow> i' = 0"
  proof (intro allI impI)
    fix i' fp'
    assume h: "i' < length example_ops \<and> example_ops ! i' = Record fp'
               \<and> coerce_path (example_daemon None) fp'
                   = coerce_path (example_daemon None) (RawStr ''a.py'')"
    then have "i' = 0 \<or> i' = 1 \<or> i' = 2 \<or> i' = 3"
      by (auto simp: example_ops_def)
    with h show "i' = 0"
      by (auto simp: example_ops_def example_coerce)
  qed
  have hyp: "(1::nat) < length example_ops \<and> example_ops ! 1 = Drain
     \<and> (0::nat) < length example_ops \<and> example_ops ! 0 = Record (RawStr ''a.py'')"
    by (simp add: example_ops_def)
  have set1: "{coerce_path (example_daemon None) fp | fp i. i < (1::nat) \<and> example_ops ! i = Record fp
                     \<and> (\<forall>k. i < k \<and> k < 1 \<longrightarrow> example_ops ! k \<noteq> Drain)} = {example_path}"
    by (auto simp: example_ops_def example_coerce)
  show ?thesis
    using coalescer_exactly_once
      [of "example_daemon None" 1 example_ops 0 "RawStr ''a.py''"] once hyp set1
    by (simp add: example_pending example_coerce numeral_2_eq_2)
qed

section \<open>The exclusion matcher\<close>

lemma resolve_parts_clean:
  "list_all clean_component xs \<Longrightarrow> resolve_parts acc xs = acc @ xs"
  by (induction xs arbitrary: acc) (auto simp: clean_component_def)

lemma resolve_parts_result:
  "list_all clean_component acc \<Longrightarrow> list_all clean_component (resolve_parts acc xs)"
proof (induction xs arbitrary: acc)
  case Nil
  then show ?case by simp
next
  case (Cons x xs)
  have "list_all clean_component (butlast acc)"
    using Cons.prems by (auto simp: list_all_iff dest: in_set_butlastD)
  moreover have "list_all clean_component (acc @ [x])" if "x \<noteq> ''..''" "x \<noteq> ''.''" "x \<noteq> []"
    using that Cons.prems by (auto simp: list_all_iff clean_component_def)
  ultimately show ?case
    using Cons.IH Cons.prems by simp
qed

lemma resolved_resolve: "resolved (resolve p)"
  by (simp add: resolved_def resolve_def resolve_parts_result)

lemma resolved_init: "resolved (local_path (CsyncDaemon_init g cfg))"
  by (simp add: CsyncDaemon_init_def Let_def resolved_resolve)

lemma coerce_relative:
  assumes "resolved (local_path d)" "list_all clean_component ps"
  shows "coerce_path d (RawPathObj (PosixPath False ps)) = PosixPath True (parts (local_path d) @ ps)"
  using assms
  by (simp add: coerce_path_def joinpath_def resolve_def resolved_def resolve_parts_clean)

lemma relative_path_below:
  assumes "resolved (local_path d)" "ps \<noteq> []"
  shows "relative_path d (PosixPath True (parts (local_path d) @ ps)) = join_with (CHR ''/'') ps"
  using assms
  by (simp add: relative_path_def relative_to_def resolved_def as_posix_def)

lemma name_below: "ps \<noteq> [] \<Longrightarrow> name (PosixPath True (rt @ ps)) = last ps"
  by (simp add: name_def)

lemma coerce_str: "coerce_path d (RawStr s) = coerce_path d (RawPathObj (parse_path s))"
  by (simp add: coerce_path_def)

lemma exclude_loop_iff:
  "exclude_loop rel nm pats \<longleftrightarrow> (\<exists>r \<in> set pats. pattern_excludes rel nm r)"
  by (induction pats) auto

lemma should_exclude_file_iff:
  "should_exclude_file d fp
     = (case exclude_patterns (config d) of
          None \<Rightarrow> False
        | Some pats \<Rightarrow> \<exists>r \<in> set pats.
            pattern_excludes (relative_path d (coerce_path d fp)) (name (coerce_path d fp)) r)"
  by (simp add: should_exclude_file_def Let_def exclude_loop_iff split: option.splits list.splits)

lemma replace_backslash_append:
  "replace_backslash (xs @ ys) = replace_backslash xs @ replace_backslash ys"
  by (simp add: replace_backslash_def)

lemma replace_backslash_id: "CHR 0x5C \<notin> set s \<Longrightarrow> replace_backslash s = s"
  by (induction s) (auto simp: replace_backslash_def)

lemma rstrip_slash_prefix: "prefix (rstrip_slash s) s"
proof -
  have "rev s = takeWhile (\<lambda>c. c = CHR ''/'') (rev s) @ dropWhile (\<lambda>c. c = CHR ''/'') (rev s)"
    by simp
  then have "s = rev (dropWhile (\<lambda>c. c = CHR ''/'') (rev s)) @ rev (takeWhile (\<lambda>c. c = CHR ''/'') (rev s))"
    by (metis rev_append rev_rev_ident)
  then show ?thesis
    unfolding rstrip_slash_def by (metis prefixI)
qed

lemma rstrip_slash_snoc: "rstrip_slash (s @ ''/'') = rstrip_slash s"
  by (simp add: rstrip_slash_def)

lemma dir_rule_excludes:
  "pattern_excludes rel nm (X @ ''/'')
     = prefix (rstrip_slash (replace_backslash X)) rel"
  by (simp add: pattern_excludes_def Let_def replace_backslash_append endswith_slash_def
        rstrip_slash_snoc replace_backslash_def)


lemma exclude_relative:
  assumes "resolved (local_path d)" "parse_path s = PosixPath False ps"
    "list_all clean_component ps" "ps \<noteq> []" "exclude_patterns (config d) = Some pats"
  shows "should_exclude_file d (RawStr s)
     = (\<exists>r \<in> set pats. pattern_excludes (join_with (CHR ''/'') ps) (last ps) r)"
proof -
  have c: "coerce_path d (RawStr s) = PosixPath True (parts (local_path d) @ ps)"
    using assms(1,2,3) by (simp add: coerce_str coerce_relative)
  show ?thesis
    using assms(1,4,5)
    by (simp add: should_exclude_file_iff c relative_path_below name_below)
qed

lemma glob_log:
  "fnmatch ''a.log'' ''*.log''" "fnmatch ''dir/b.log'' ''*.log''"
  "\<not> fnmatch ''a.log.txt'' ''*.log''" "\<not> fnmatch ''dir/a.log.txt'' ''*.log''"
  by (simp_all add: fnmatch_def)

lemma build_rule:
  assumes "resolved (local_path d)" "exclude_patterns (config d) = Some [''build/'']"
  shows "should_exclude_file d (RawStr ''build/x.o'')"
    "should_exclude_file d (RawStr ''build/sub/y'')"
    "\<not> should_exclude_file d (RawStr ''not_build/x'')"
    "should_exclude_file d (RawStr ''buildings/x'')"
proof -
  have p: "parse_path ''build/x.o'' = PosixPath False [''build'', ''x.o'']"
    "parse_path ''build/sub/y'' = PosixPath False [''build'', ''sub'', ''y'']"
    "parse_path ''not_build/x'' = PosixPath False [''not_build'', ''x'']"
    "parse_path ''buildings/x'' = PosixPath False [''buildings'', ''x'']"
    by (simp_all add: parse_path_def)
  have r: "pattern_excludes rel nm ''build/'' = prefix ''build'' rel" for rel nm
    using dir_rule_excludes [of rel nm "''build''"]
    by (simp add: replace_backslash_def rstrip_slash_def)
  show "should_exclude_file d (RawStr ''build/x.o'')"
    by (subst exclude_relative [OF assms(1) p(1) _ _ assms(2)])
       (simp_all add: clean_component_def r)
  show "should_exclude_file d (RawStr ''build/sub/y'')"
    by (subst exclude_relative [OF assms(1) p(2) _ _ assms(2)])
       (simp_all add: clean_component_def r)
  show "\<not> should_exclude_file d (RawStr ''not_build/x'')"
    by (subst exclude_relative [OF assms(1) p(3) _ _ assms(2)])
       (simp_all add: clean_component_def r)
  show "should_exclude_file d (RawStr ''buildings/x'')"
    by (subst exclude_relative [OF assms(1) p(4) _ _ assms(2)])
       (simp_all add: clean_component_def r)
qed

lemma log_rule:
  assumes "resolved (local_path d)" "exclude_patterns (config d) = Some [''*.log'']"
  shows "should_exclude_file d (RawStr ''a.log'')"
    "should_exclude_file d (RawStr ''dir/b.log'')"
    "\<not> should_exclude_file d (RawStr ''a.log.txt'')"
proof -
  have p: "parse_path ''a.log'' = PosixPath False [''a.log'']"
    "parse_path ''dir/b.log'' = PosixPath False [''dir'', ''b.log'']"
    "parse_path ''a.log.txt'' = PosixPath False [''a.log.txt'']"
    by (simp_all add: parse_path_def)
  have r: "pattern_excludes rel nm ''*.log'' = (fnmatch rel ''*.log'' \<or> fnmatch nm ''*.log'')"
    for rel nm
    by (simp add: pattern_excludes_def replace_backslash_def endswith_slash_def Let_def)
  show "should_exclude_file d (RawStr ''a.log'')"
    by (subst exclude_relative [OF assms(1) p(1) _ _ assms(2)])
       (simp_all add: clean_component_def r glob_log)
  show "should_exclude_file d (RawStr ''dir/b.log'')"
    by (subst exclude_relative [OF assms(1) p(2) _ _ assms(2)])
       (simp_all add: clean_component_def r glob_log)
  show "\<not> should_exclude_file d (RawStr ''a.log.txt'')"
    by (subst exclude_relative [OF assms(1) p(3) _ _ assms(2)])
       (simp_all add: clean_component_def r glob_log)
qed

lemma exact_rule:
  assumes "exclude_patterns (config d) = Some [r]"
    "CHR ''*'' \<notin> set (replace_backslash r)" "\<not> endswith_slash (replace_backslash r)"
  shows "should_exclude_file d fp
     = (relative_path d (coerce_path d fp) = replace_backslash r
        \<or> name (coerce_path d fp) = replace_backslash r)"
  using assms by (simp add: should_exclude_file_iff pattern_excludes_def Let_def)

lemma should_exclude_file_cong:
  assumes "exclude_patterns (config d) = exclude_patterns (config d')" "local_path d = local_path d'"
  shows "should_exclude_file d fp = should_exclude_file d' fp"
proof -
  have c: "coerce_path d fp = coerce_path d' fp"
    using assms(2) by (simp add: coerce_path_def Let_def)
  have r: "relative_path d p = relative_path d' p" for p
    using assms(2) by (simp add: relative_path_def split: sum.splits)
  show ?thesis
    by (simp add: should_exclude_file_def c r assms(1))
qed

lemma no_rules:
  "exclude_patterns (config d) = None \<or> exclude_patterns (config d) = Some [] \<Longrightarrow>
   \<not> should_exclude_file d fp"
  by (auto simp: should_exclude_file_def Let_def)

lemma dir_rule_member:
  assumes "exclude_patterns (config d) = Some pats" "X @ ''/'' \<in> set pats"
    "prefix (replace_backslash X) (relative_path d (coerce_path d fp))"
  shows "should_exclude_file d fp"
proof -
  have "prefix (rstrip_slash (replace_backslash X)) (relative_path d (coerce_path d fp))"
    using rstrip_slash_prefix assms(3) prefix_order.trans by blast
  then have "pattern_excludes (relative_path d (coerce_path d fp)) (name (coerce_path d fp)) (X @ ''/'')"
    by (simp add: dir_rule_excludes)
  with assms(1,2) show ?thesis
    by (auto simp: should_exclude_file_iff)
qed

lemma dir_rule_single:
  assumes "exclude_patterns (config d) = Some [X @ ''/'']"
  shows "should_exclude_file d fp
     = prefix (rstrip_slash (replace_backslash X)) (relative_path d (coerce_path d fp))"
  using assms by (simp add: should_exclude_file_iff dir_rule_excludes)

lemma resolved_example: "resolved (local_path (example_daemon pats))"
  by (simp add: example_daemon_def resolved_init)

lemma example_patterns: "exclude_patterns (config (example_daemon pats)) = pats"
  by (simp add: example_daemon_def CsyncDaemon_init_def example_config_def Let_def)

lemma example_coerce_relative:
  "parse_path s = PosixPath False ps \<Longrightarrow> list_all clean_component ps \<Longrightarrow>
   coerce_path (example_daemon pats) (RawStr s) = PosixPath True ([''home'', ''u'', ''proj''] @ ps)"
  using coerce_relative [OF resolved_example, of ps pats]
  by (simp add: coerce_str example_local_path)

lemma example_relative_path:
  "ps \<noteq> [] \<Longrightarrow>
   relative_path (example_daemon pats) (PosixPath True ([''home'', ''u'', ''proj''] @ ps))
     = join_with (CHR ''/'') ps"
  using relative_path_below [OF resolved_example, of ps pats]
  by (simp add: example_local_path)

text \<open>
  C6, as the code has it. The last part of the claim, that a rule without wildcard or
  trailing slash excludes exactly the paths whose relative form or bare file name equals
  it, fails for a rule with a backslash: the rule is compared after its backslashes
  are replaced by slashes. The rule that is \<^verbatim>\<open>build\<close> followed by one backslash
  has no wildcard and no trailing slash, and it excludes \<^verbatim>\<open>build/x.o\<close>, whose
  relative form and file name both differ from the rule.
\<close>

theorem backslash_rule_not_exact:
  "CHR ''*'' \<notin> set example_backslash_rule
   \<and> \<not> endswith_slash example_backslash_rule
   \<and> should_exclude_file (example_daemon (Some [example_backslash_rule])) (RawStr ''build/x.o'')
   \<and> relative_path (example_daemon (Some [example_backslash_rule]))
        (coerce_path (example_daemon (Some [example_backslash_rule])) (RawStr ''build/x.o''))
       = ''build/x.o''
   \<and> name (coerce_path (example_daemon (Some [example_backslash_rule])) (RawStr ''build/x.o''))
       = ''x.o''
   \<and> ''build/x.o'' \<noteq> example_backslash_rule
   \<and> ''x.o'' \<noteq> example_backslash_rule"
proof -
  have p: "parse_path ''build/x.o'' = PosixPath False [''build'', ''x.o'']"
    by (simp add: parse_path_def)
  have c: "coerce_path (example_daemon pats) (RawStr ''build/x.o'')
             = PosixPath True [''home'', ''u'', ''proj'', ''build'', ''x.o'']" for pats
    using example_coerce_relative [OF p, of pats] by (simp add: clean_component_def)
  have r: "relative_path (example_daemon pats)
             (PosixPath True [''home'', ''u'', ''proj'', ''build'', ''x.o'']) = ''build/x.o''"
    for pats
    using example_relative_path [of "[''build'', ''x.o'']" pats] by simp
  have e: "pattern_excludes ''build/x.o'' ''x.o'' example_backslash_rule"
    by (simp add: pattern_excludes_def example_backslash_rule_def replace_backslash_def
          endswith_slash_def rstrip_slash_def Let_def)
  have n: "name (PosixPath True [''home'', ''u'', ''proj'', ''build'', ''x.o'']) = ''x.o''"
    by (simp add: name_def)
  have x: "should_exclude_file (example_daemon (Some [example_backslash_rule])) (RawStr ''build/x.o'')"
    by (simp add: should_exclude_file_iff example_patterns c r n e)
  show ?thesis
    using x by (simp add: c r n) (simp add: example_backslash_rule_def endswith_slash_def)
qed

text \<open>
  C6, amended. \<^verbatim>\<open>should_exclude_file\<close> depends only on the rule list, the watched
  root and the path. With no rule list or an empty one it excludes nothing. Under a
  resolved root (the root of every new daemon is one), the rule \<^verbatim>\<open>build/\<close>
  excludes the relative paths \<^verbatim>\<open>build/x.o\<close> and \<^verbatim>\<open>build/sub/y\<close> but not
  \<^verbatim>\<open>not_build/x\<close>, and the rule \<^verbatim>\<open>*.log\<close> excludes \<^verbatim>\<open>a.log\<close> and
  \<^verbatim>\<open>dir/b.log\<close> but not \<^verbatim>\<open>a.log.txt\<close>. A rule that, with its backslashes
  replaced by slashes, has no \<^verbatim>\<open>*\<close> and no trailing slash excludes exactly the paths
  whose relative form or bare file name equals the rule so rewritten; for a rule
  without backslash that is the rule itself.
\<close>

theorem exclusion_matcher:
  "(exclude_patterns (config d) = exclude_patterns (config d') \<and> local_path d = local_path d'
      \<longrightarrow> should_exclude_file d fp = should_exclude_file d' fp)
   \<and> (exclude_patterns (config d) = None \<or> exclude_patterns (config d) = Some []
      \<longrightarrow> \<not> should_exclude_file d fp)
   \<and> resolved (local_path (CsyncDaemon_init g cfg))
   \<and> (resolved (local_path d) \<and> exclude_patterns (config d) = Some [''build/'']
      \<longrightarrow> should_exclude_file d (RawStr ''build/x.o'')
        \<and> should_exclude_file d (RawStr ''build/sub/y'')
        \<and> \<not> should_exclude_file d (RawStr ''not_build/x''))
   \<and> (resolved (local_path d) \<and> exclude_patterns (config d) = Some [''*.log'']
      \<longrightarrow> should_exclude_file d (RawStr ''a.log'')
        \<and> should_exclude_file d (RawStr ''dir/b.log'')
        \<and> \<not> should_exclude_file d (RawStr ''a.log.txt''))
   \<and> (exclude_patterns (config d) = Some [r]
        \<and> CHR ''*'' \<notin> set (replace_backslash r) \<and> \<not> endswith_slash (replace_backslash r)
      \<longrightarrow> should_exclude_file d fp
           = (relative_path d (coerce_path d fp) = replace_backslash r
              \<or> name (coerce_path d fp) = replace_backslash r))
   \<and> (exclude_patterns (config d) = Some [r]
        \<and> CHR 0x5C \<notin> set r \<and> CHR ''*'' \<notin> set r \<and> \<not> endswith_slash r
      \<longrightarrow> should_exclude_file d fp
           = (relative_path d (coerce_path d fp) = r \<or> name (coerce_path d fp) = r))"
proof -
  have c1: "exclude_patterns (config d) = exclude_patterns (config d') \<and> local_path d = local_path d'
      \<longrightarrow> should_exclude_file d fp = should_exclude_file d' fp"
    using should_exclude_file_cong [of d d' fp] by simp
  have c2: "exclude_patterns (config d) = None \<or> exclude_patterns (config d) = Some []
      \<longrightarrow> \<not> should_exclude_file d fp"
    using no_rules [of d fp] by (rule impI)
  have c3: "resolved (local_path (CsyncDaemon_init g cfg))"
    by (rule resolved_init)
  have c4: "resolved (local_path d) \<and> exclude_patterns (config d) = Some [''build/'']
      \<longrightarrow> should_exclude_file d (RawStr ''build/x.o'')
        \<and> should_exclude_file d (RawStr ''build/sub/y'')
        \<and> \<not> should_exclude_file d (RawStr ''not_build/x'')"
    using build_rule(1,2,3) [of d] by simp
  have c5: "resolved (local_path d) \<and> exclude_patterns (config d) = Some [''*.log'']
      \<longrightarrow> should_exclude_file d (RawStr ''a.log'')
        \<and> should_exclude_file d (RawStr ''dir/b.log'')
        \<and> \<not> should_exclude_file d (RawStr ''a.log.txt'')"
    using log_rule [of d] by simp
  have c6: "exclude_patterns (config d) = Some [r]
        \<and> CHR ''*'' \<notin> set (replace_backslash r) \<and> \<not> endswith_slash (replace_backslash r)
      \<longrightarrow> should_exclude_file d fp
           = (relative_path d (coerce_path d fp) = replace_backslash r
              \<or> name (coerce_path d fp) = replace_backslash r)"
    using exact_rule [of d r fp] by simp
  have c7: "exclude_patterns (config d) = Some [r]
        \<and> CHR 0x5C \<notin> set r \<and> CHR ''*'' \<notin> set r \<and> \<not> endswith_slash r
      \<longrightarrow> should_exclude_file d fp
           = (relative_path d (coerce_path d fp) = r \<or> name (coerce_path d fp) = r)"
    using exact_rule [of d r fp] by (simp add: replace_backslash_id)
  show ?thesis
    by (rule conjI [OF c1 conjI [OF c2 conjI [OF c3 conjI [OF c4 conjI [OF c5 conjI [OF c6 c7]]]]]])
qed

theorem exclusion_matcher_witness:
  "should_exclude_file (example_daemon (Some [''.DS_Store''])) (RawStr ''sub/.DS_Store'')
     = should_exclude_file ((example_daemon (Some [''.DS_Store'']))\<lparr>sync_count := 7\<rparr>)
         (RawStr ''sub/.DS_Store'')
   \<and> \<not> should_exclude_file (example_daemon None) (RawStr ''build/x.o'')
   \<and> \<not> should_exclude_file (example_daemon (Some [])) (RawStr ''build/x.o'')
   \<and> should_exclude_file (example_daemon (Some [''build/''])) (RawStr ''build/x.o'')
   \<and> should_exclude_file (example_daemon (Some [''build/''])) (RawStr ''build/sub/y'')
   \<and> \<not> should_exclude_file (example_daemon (Some [''build/''])) (RawStr ''not_build/x'')
   \<and> should_exclude_file (example_daemon (Some [''*.log''])) (RawStr ''a.log'')
   \<and> should_exclude_file (example_daemon (Some [''*.log''])) (RawStr ''dir/b.log'')
   \<and> \<not> should_exclude_file (example_daemon (Some [''*.log''])) (RawStr ''a.log.txt'')
   \<and> should_exclude_file (example_daemon (Some [''.DS_Store''])) (RawStr ''sub/.DS_Store'')"
proof -
  have p: "parse_path ''sub/.DS_Store'' = PosixPath False [''sub'', ''.DS_Store'']"
    by (simp add: parse_path_def)
  have c: "coerce_path (example_daemon pats) (RawStr ''sub/.DS_Store'')
             = PosixPath True [''home'', ''u'', ''proj'', ''sub'', ''.DS_Store'']" for pats
    using example_coerce_relative [OF p, of pats] by (simp add: clean_component_def)
  have n: "name (PosixPath True [''home'', ''u'', ''proj'', ''sub'', ''.DS_Store'']) = ''.DS_Store''"
    by (simp add: name_def)
  have h: "CHR ''*'' \<notin> set (replace_backslash ''.DS_Store'')"
    "\<not> endswith_slash (replace_backslash ''.DS_Store'')"
    "replace_backslash ''.DS_Store'' = ''.DS_Store''"
    by (simp_all add: replace_backslash_def endswith_slash_def)
  have w1: "should_exclude_file (example_daemon (Some [''.DS_Store''])) (RawStr ''sub/.DS_Store'')
     = should_exclude_file ((example_daemon (Some [''.DS_Store'']))\<lparr>sync_count := 7\<rparr>)
         (RawStr ''sub/.DS_Store'')
     \<and> should_exclude_file (example_daemon (Some [''.DS_Store''])) (RawStr ''sub/.DS_Store'')"
    using
      exclusion_matcher [of "example_daemon (Some [''.DS_Store''])"
        "(example_daemon (Some [''.DS_Store'']))\<lparr>sync_count := 7\<rparr>" "RawStr ''sub/.DS_Store''"
        id "example_config None" "''.DS_Store''"]
    by (simp add: example_patterns c n h endswith_slash_def) blast
  have w2: "\<not> should_exclude_file (example_daemon None) (RawStr ''build/x.o'')"
    using exclusion_matcher [of "example_daemon None" "example_daemon None" "RawStr ''build/x.o''"
        id "example_config None" "[]"]
    by (simp add: example_patterns)
  have w3: "\<not> should_exclude_file (example_daemon (Some [])) (RawStr ''build/x.o'')"
    using exclusion_matcher [of "example_daemon (Some [])" "example_daemon None" "RawStr ''build/x.o''"
        id "example_config None" "[]"]
    by (simp add: example_patterns)
  have w4: "should_exclude_file (example_daemon (Some [''build/''])) (RawStr ''build/x.o'')
     \<and> should_exclude_file (example_daemon (Some [''build/''])) (RawStr ''build/sub/y'')
     \<and> \<not> should_exclude_file (example_daemon (Some [''build/''])) (RawStr ''not_build/x'')"
    using exclusion_matcher [of "example_daemon (Some [''build/''])" "example_daemon None"
        "RawStr ''build/x.o''" id "example_config None" "[]"]
    by (simp add: example_patterns resolved_example)
  have w5: "should_exclude_file (example_daemon (Some [''*.log''])) (RawStr ''a.log'')
     \<and> should_exclude_file (example_daemon (Some [''*.log''])) (RawStr ''dir/b.log'')
     \<and> \<not> should_exclude_file (example_daemon (Some [''*.log''])) (RawStr ''a.log.txt'')"
    using exclusion_matcher [of "example_daemon (Some [''*.log''])" "example_daemon None"
        "RawStr ''build/x.o''" id "example_config None" "[]"]
    by (simp add: example_patterns resolved_example)
  from w1 w2 w3 w4 w5 show ?thesis by blast
qed

text \<open>
  C9, as the code has it. The claim that every relative path whose text begins with
  \<open>X\<close> is excluded by the rule \<open>X/\<close> fails when \<open>X\<close> has a backslash: for
  \<open>X\<close> the three characters \<^verbatim>\<open>a\<close>, backslash, \<^verbatim>\<open>b\<close>, the file whose name is
  \<open>X\<close> followed by \<^verbatim>\<open>c\<close> begins with \<open>X\<close> and is not excluded.
\<close>

theorem backslash_dir_rule_not_prefix:
  "prefix example_backslash_dir
     (relative_path (example_daemon (Some [example_backslash_dir @ ''/'']))
        (coerce_path (example_daemon (Some [example_backslash_dir @ ''/'']))
           (RawStr (example_backslash_dir @ ''c''))))
   \<and> \<not> should_exclude_file (example_daemon (Some [example_backslash_dir @ ''/'']))
          (RawStr (example_backslash_dir @ ''c''))"
proof -
  let ?f = "example_backslash_dir @ ''c''"
  have p: "parse_path ?f = PosixPath False [?f]"
    by (simp add: parse_path_def example_backslash_dir_def)
  have c: "coerce_path (example_daemon pats) (RawStr ?f)
             = PosixPath True [''home'', ''u'', ''proj'', ?f]" for pats
    using example_coerce_relative [OF p, of pats]
    by (simp add: clean_component_def example_backslash_dir_def)
  have r: "relative_path (example_daemon pats)
             (PosixPath True [''home'', ''u'', ''proj'', ?f]) = ?f" for pats
    using example_relative_path [of "[?f]" pats] by simp
  have e: "\<not> pattern_excludes ?f nm (example_backslash_dir @ ''/'')" for nm
    by (simp add: dir_rule_excludes)
       (simp add: example_backslash_dir_def replace_backslash_def rstrip_slash_def)
  show ?thesis
    by (simp add: should_exclude_file_iff example_patterns c r e)
qed

text \<open>
  C9, amended. A trailing-slash rule \<open>X/\<close> is matched by plain string prefix against
  the relative path, not by directory component: every relative path whose text begins
  with \<open>X\<close>, read with its backslashes replaced by slashes, is excluded (for \<open>X\<close>
  without backslash: every relative path whose text begins with \<open>X\<close>), whatever
  other rules the list holds; as the only rule, it excludes exactly the paths that
  begin with that text less its trailing slashes. So the rule \<^verbatim>\<open>build/\<close> excludes
  \<^verbatim>\<open>buildings/x\<close> as well as \<^verbatim>\<open>build/x.o\<close>.
\<close>

theorem directory_rule_prefix:
  "(exclude_patterns (config d) = Some pats \<and> X @ ''/'' \<in> set pats
      \<and> prefix (replace_backslash X) (relative_path d (coerce_path d fp))
      \<longrightarrow> should_exclude_file d fp)
   \<and> (exclude_patterns (config d) = Some pats \<and> X @ ''/'' \<in> set pats
      \<and> CHR 0x5C \<notin> set X \<and> prefix X (relative_path d (coerce_path d fp))
      \<longrightarrow> should_exclude_file d fp)
   \<and> (exclude_patterns (config d) = Some [X @ ''/'']
      \<longrightarrow> should_exclude_file d fp
           = prefix (rstrip_slash (replace_backslash X)) (relative_path d (coerce_path d fp)))
   \<and> (resolved (local_path d) \<and> exclude_patterns (config d) = Some [''build/'']
      \<longrightarrow> should_exclude_file d (RawStr ''buildings/x'')
        \<and> should_exclude_file d (RawStr ''build/x.o''))"
proof -
  have c1: "exclude_patterns (config d) = Some pats \<and> X @ ''/'' \<in> set pats
      \<and> prefix (replace_backslash X) (relative_path d (coerce_path d fp))
      \<longrightarrow> should_exclude_file d fp"
    using dir_rule_member [of d pats X fp] by simp
  have c2: "exclude_patterns (config d) = Some pats \<and> X @ ''/'' \<in> set pats
      \<and> CHR 0x5C \<notin> set X \<and> prefix X (relative_path d (coerce_path d fp))
      \<longrightarrow> should_exclude_file d fp"
    using dir_rule_member [of d pats X fp] by (simp add: replace_backslash_id)
  have c3: "exclude_patterns (config d) = Some [X @ ''/'']
      \<longrightarrow> should_exclude_file d fp
           = prefix (rstrip_slash (replace_backslash X)) (relative_path d (coerce_path d fp))"
    using dir_rule_single [of d X fp] by (rule impI)
  have c4: "resolved (local_path d) \<and> exclude_patterns (config d) = Some [''build/'']
      \<longrightarrow> should_exclude_file d (RawStr ''buildings/x'')
        \<and> should_exclude_file d (RawStr ''build/x.o'')"
    using build_rule(1,4) [of d] by simp
  show ?thesis
    by (rule conjI [OF c1 conjI [OF c2 conjI [OF c3 c4]]])
qed

theorem directory_rule_prefix_witness:
  "prefix ''build''
     (relative_path (example_daemon (Some [''*.pyc'', ''build/'']))
        (coerce_path (example_daemon (Some [''*.pyc'', ''build/''])) (RawStr ''buildings/x'')))
   \<and> should_exclude_file (example_daemon (Some [''*.pyc'', ''build/''])) (RawStr ''buildings/x'')
   \<and> should_exclude_file (example_daemon (Some [''build/''])) (RawStr ''buildings/x'')
   \<and> should_exclude_file (example_daemon (Some [''build/''])) (RawStr ''build/x.o'')"
proof -
  have p: "parse_path ''buildings/x'' = PosixPath False [''buildings'', ''x'']"
    by (simp add: parse_path_def)
  have c: "coerce_path (example_daemon pats) (RawStr ''buildings/x'')
             = PosixPath True [''home'', ''u'', ''proj'', ''buildings'', ''x'']" for pats
    using example_coerce_relative [OF p, of pats] by (simp add: clean_component_def)
  have r: "relative_path (example_daemon pats)
             (PosixPath True [''home'', ''u'', ''proj'', ''buildings'', ''x'']) = ''buildings/x''"
    for pats
    using example_relative_path [of "[''buildings'', ''x'']" pats] by simp
  have h: "replace_backslash ''build'' = ''build''" "CHR 0x5C \<notin> set ''build''"
    by (simp_all add: replace_backslash_def)
  show ?thesis
    using
      directory_rule_prefix [of "example_daemon (Some [''*.pyc'', ''build/''])"
        "[''*.pyc'', ''build/'']" "''build''" "RawStr ''buildings/x''"]
      directory_rule_prefix [of "example_daemon (Some [''build/''])"
        "[''build/'']" "''build''" "RawStr ''buildings/x''"]
    by (simp add: example_patterns resolved_example c r h)
qed

section \<open>The scheduler\<close>

subsection \<open>Facts about a pass of the loop\<close>

lemma console_open_log: "console_open (log_action a w) = (console_open w \<and> a \<noteq> CloseStdio)"
  by (auto simp: console_open_def log_action_def)

lemma console_open_perform_sync:
  "console_open (snd (snd (perform_sync env (d, w)))) = console_open w"
  by (simp add: console_open_def trace_perform_sync)

lemma perform_sync_is_running:
  "is_running (fst (snd (perform_sync env (d, w)))) = is_running d"
  by (cases "push (proc env)")
     (simp_all add: perform_sync_def get_pending_changes_def Let_def)

lemma perform_sync_call_open:
  "console_open w \<Longrightarrow>
   perform_sync_call env (d, w)
     = (Inr (fst (perform_sync env (d, w))), snd (perform_sync env (d, w)))"
  by (simp add: perform_sync_call_def console_print_def split_beta)

lemma perform_sync_call_closed:
  "\<not> console_open w \<Longrightarrow>
   perform_sync_call env (d, w)
     = (Inl ValueError, d\<lparr>pending_changes := {}\<rparr>, log_action (Drained (pending_changes d)) w)"
  by (simp add: perform_sync_call_def console_print_def get_pending_changes_def Let_def
        console_open_log)

lemma sync_tick_idle:
  "\<not> should_sync_now d now \<Longrightarrow> sync_tick env now (d, w) = (Slept 1, d, w)"
  by (simp add: sync_tick_def)

lemma sync_tick_open:
  "should_sync_now d now \<Longrightarrow> console_open w \<Longrightarrow>
   sync_tick env now (d, w) = (Slept 1, snd (perform_sync env (d, w)))"
  by (simp add: sync_tick_def perform_sync_call_open)

lemma sync_tick_closed:
  "should_sync_now d now \<Longrightarrow> \<not> console_open w \<Longrightarrow>
   sync_tick env now (d, w)
     = (Raised ValueError, d\<lparr>pending_changes := {}\<rparr>,
        log_action (Drained (pending_changes d)) w)"
  by (simp add: sync_tick_def perform_sync_call_closed console_print_def console_open_log)

lemma sync_tick_drained:
  "(\<exists>cs. Drained cs \<in> set (drop (length (trace w)) (trace (snd (snd (sync_tick env now (d, w)))))))
     = should_sync_now d now"
proof (cases "should_sync_now d now")
  case False
  then show ?thesis by (simp add: sync_tick_idle)
next
  case True
  then show ?thesis
    by (cases "console_open w")
       (auto simp: sync_tick_open sync_tick_closed trace_perform_sync log_action_simps)
qed

lemma sync_tick_push:
  "console_open w \<Longrightarrow>
   (RsyncPush \<in> set (drop (length (trace w)) (trace (snd (snd (sync_tick env now (d, w))))))) 
     = should_sync_now d now"
  by (cases "should_sync_now d now")
     (simp_all add: sync_tick_idle sync_tick_open trace_perform_sync)

lemma sync_tick_is_running:
  "is_running (fst (snd (sync_tick env now (d, w)))) = is_running d"
proof (cases "should_sync_now d now")
  case False
  then show ?thesis by (simp add: sync_tick_idle)
next
  case True
  then show ?thesis
    by (cases "console_open w")
       (simp_all add: sync_tick_open sync_tick_closed perform_sync_is_running)
qed

lemma sync_tick_console_open:
  "console_open w \<Longrightarrow> console_open (snd (snd (sync_tick env now (d, w))))"
  by (cases "should_sync_now d now")
     (simp_all add: sync_tick_idle sync_tick_open console_open_perform_sync)

lemma sync_tick_open_slept:
  "console_open w \<Longrightarrow> fst (sync_tick env now (d, w)) = Slept 1"
  by (cases "should_sync_now d now") (simp_all add: sync_tick_idle sync_tick_open)

lemma sync_loop_open_console:
  assumes "console_open (snd s)" "is_running (fst s)" "\<forall>e \<in> set ticks. \<not> stop_requested e"
  shows "fst (sync_loop ticks s) = StillLooping
     \<and> fst (snd (sync_loop ticks s)) = replicate (length ticks) 1"
  using assms
proof (induction ticks arbitrary: s)
  case Nil
  then show ?case by simp
next
  case (Cons e es)
  obtain d w where s: "s = (d, w)" by (cases s)
  let ?s1 = "snd (sync_tick (tick_sync e) (tick_time e) (d, w))"
  have t: "fst (sync_tick (tick_sync e) (tick_time e) (d, w)) = Slept 1"
    using Cons.prems(1) s by (simp add: sync_tick_open_slept)
  have "console_open (snd ?s1)" "is_running (fst ?s1)"
    using Cons.prems s by (simp_all add: sync_tick_console_open sync_tick_is_running)
  then have "fst (sync_loop es ?s1) = StillLooping
     \<and> fst (snd (sync_loop es ?s1)) = replicate (length es) 1"
    using Cons.prems(3) by (intro Cons.IH) simp_all
  then show ?case
    using Cons.prems s by (simp add: split_beta t)
qed

lemma sync_loop_closed_console:
  assumes "\<not> console_open w" "is_running d" "\<not> stop_requested e"
    "should_sync_now d (tick_time e)"
  shows "sync_loop (e # es) (d, w)
     = (Died ValueError, [], d\<lparr>pending_changes := {}\<rparr>,
        log_action (Drained (pending_changes d)) w)"
  using assms by (simp add: sync_tick_closed)

lemma enter_watching_detached:
  "\<not> console_open (snd (enter_watching env True info (d, w)))
   \<and> is_running (fst (enter_watching env True info (d, w)))"
proof -
  have "is_running (fst (enter_watching env True info (d, w)))"
    by (simp add: enter_watching_def Let_def split_beta perform_sync_is_running)
  moreover have "\<not> console_open (snd (enter_watching env True info (d, w)))"
    by (simp add: console_open_def trace_enter_watching)
  ultimately show ?thesis by simp
qed

lemma start_up_detached:
  assumes "fst (start_up env True (d, w)) = Watching"
  shows "\<not> console_open (snd (snd (start_up env True (d, w))))
     \<and> is_running (fst (snd (start_up env True (d, w))))"
proof -
  from assms have n: "get_daemon_by_path w (as_posix (local_path d)) = None"
    and "\<exists>own. fork_result env = ForkChild own"
    by (simp_all add: start_up_watching_iff)
  then obtain own where o: "fork_result env = ForkChild own" by blast
  show ?thesis
    using n o by (simp add: start_up_def Let_def enter_watching_detached)
qed

lemma example_detached_facts:
  "fst (start_up (example_start_env (ForkChild 200)) True (example_daemon None, example_world))
     = Watching"
  "last_sync_time (fst example_detached) = 1001"
  "max_sync_interval (fst example_detached) = 300"
proof -
  have n: "get_daemon_by_path example_world (as_posix (local_path (example_daemon None))) = None"
    by (simp add: get_daemon_by_path_def example_world_def)
  have f: "fork_result (example_start_env (ForkChild 200)) = ForkChild 200"
    by (simp add: example_start_env_def)
  show "fst (start_up (example_start_env (ForkChild 200)) True (example_daemon None, example_world))
     = Watching"
    using n f by (simp add: start_up_watching_iff)
  have e: "fst (enter_watching (example_start_env g) True info (d, w))
      = d\<lparr>observer_alive := True, is_running := True, pending_changes := {},
           sync_count := sync_count d + 1, last_sync_time := 1001\<rparr>" for g info d w
    by (simp add: enter_watching_def perform_sync_def get_pending_changes_def Let_def
          split_beta example_start_env_def)
  show "last_sync_time (fst example_detached) = 1001"
    using n f by (simp add: example_detached_def start_up_def Let_def e)
  have m: "max_sync_interval (example_daemon None) = 300"
    by (simp add: example_daemon_def CsyncDaemon_init_def Let_def)
  show "max_sync_interval (fst example_detached) = 300"
    using n f by (simp add: example_detached_def start_up_def Let_def e m)
qed

subsection \<open>The trigger condition\<close>

text \<open>
  C1. A sync fires on a tick if and only if either the time since the last sync exceeds
  the maximum interval (forced, pending changes or not), or there are pending changes
  and the time since the last sync exceeds the sync delay (debounced): the predicate
  \<^verbatim>\<open>should_sync_now\<close> is this condition, a pass of the loop calls the executor
  (which first drains) exactly when it holds, and with a working console the transfer
  is invoked in the pass exactly when it holds. A new daemon has delay 5 and maximum
  interval 300. With these and last sync time \<open>T\<close>: no pending change and clock
  \<open>T + 301\<close> fires; one pending change and clock \<open>T + 6\<close> fires; one pending change
  and clock \<open>T + 4\<close> does not fire.
\<close>

theorem should_sync_now_trigger:
  "should_sync_now d now =
     (now - last_sync_time d > max_sync_interval d \<or>
      (pending_changes d \<noteq> {} \<and> now - last_sync_time d > sync_delay d))
   \<and> sync_delay (CsyncDaemon_init g cfg) = 5
   \<and> max_sync_interval (CsyncDaemon_init g cfg) = 300
   \<and> should_sync_now
        ((CsyncDaemon_init g cfg)\<lparr>last_sync_time := T, pending_changes := {}\<rparr>) (T + 301)
   \<and> should_sync_now
        ((CsyncDaemon_init g cfg)\<lparr>last_sync_time := T, pending_changes := {p}\<rparr>) (T + 6)
   \<and> \<not> should_sync_now
        ((CsyncDaemon_init g cfg)\<lparr>last_sync_time := T, pending_changes := {p}\<rparr>) (T + 4)
   \<and> (\<exists>cs. Drained cs
          \<in> set (drop (length (trace w)) (trace (snd (snd (sync_tick env now (d, w)))))))
       = (now - last_sync_time d > max_sync_interval d \<or>
          (pending_changes d \<noteq> {} \<and> now - last_sync_time d > sync_delay d))
   \<and> (console_open w \<longrightarrow>
        (RsyncPush \<in> set (drop (length (trace w)) (trace (snd (snd (sync_tick env now (d, w)))))))
          = (now - last_sync_time d > max_sync_interval d \<or>
             (pending_changes d \<noteq> {} \<and> now - last_sync_time d > sync_delay d)))"
proof -
  have t: "should_sync_now d now =
     (now - last_sync_time d > max_sync_interval d \<or>
      (pending_changes d \<noteq> {} \<and> now - last_sync_time d > sync_delay d))" for d now
    by (simp add: should_sync_now_def)
  have i: "sync_delay (CsyncDaemon_init g cfg) = 5
   \<and> max_sync_interval (CsyncDaemon_init g cfg) = 300
   \<and> should_sync_now
        ((CsyncDaemon_init g cfg)\<lparr>last_sync_time := T, pending_changes := {}\<rparr>) (T + 301)
   \<and> should_sync_now
        ((CsyncDaemon_init g cfg)\<lparr>last_sync_time := T, pending_changes := {p}\<rparr>) (T + 6)
   \<and> \<not> should_sync_now
        ((CsyncDaemon_init g cfg)\<lparr>last_sync_time := T, pending_changes := {p}\<rparr>) (T + 4)"
    by (simp add: should_sync_now_def CsyncDaemon_init_def Let_def)
  have dr: "(\<exists>cs. Drained cs
          \<in> set (drop (length (trace w)) (trace (snd (snd (sync_tick env now (d, w)))))))
       = (now - last_sync_time d > max_sync_interval d \<or>
          (pending_changes d \<noteq> {} \<and> now - last_sync_time d > sync_delay d))"
    using sync_tick_drained [of w env now d] by (simp add: t)
  have pu: "console_open w \<longrightarrow>
        (RsyncPush \<in> set (drop (length (trace w)) (trace (snd (snd (sync_tick env now (d, w)))))))
          = (now - last_sync_time d > max_sync_interval d \<or>
             (pending_changes d \<noteq> {} \<and> now - last_sync_time d > sync_delay d))"
    using sync_tick_push [of w env now d] by (simp add: t)
  show ?thesis
    by (rule conjI [OF t conjI [OF conjunct1 [OF i] conjI [OF conjunct1 [OF conjunct2 [OF i]]
          conjI [OF conjunct1 [OF conjunct2 [OF conjunct2 [OF i]]]
          conjI [OF conjunct1 [OF conjunct2 [OF conjunct2 [OF conjunct2 [OF i]]]]
          conjI [OF conjunct2 [OF conjunct2 [OF conjunct2 [OF conjunct2 [OF i]]]]
          conjI [OF dr pu]]]]]]])
qed


theorem should_sync_now_trigger_witness:
  "should_sync_now ((example_daemon None)\<lparr>last_sync_time := 1000, pending_changes := {}\<rparr>) 1301
   \<and> should_sync_now
        ((example_daemon None)\<lparr>last_sync_time := 1000, pending_changes := {example_path}\<rparr>) 1006
   \<and> \<not> should_sync_now
        ((example_daemon None)\<lparr>last_sync_time := 1000, pending_changes := {example_path}\<rparr>) 1004
   \<and> console_open example_world
   \<and> RsyncPush \<in> set (trace (snd (snd (sync_tick \<lparr>proc = Completed, clock = 1302\<rparr> 1301
         ((example_daemon None)\<lparr>last_sync_time := 1000\<rparr>, example_world)))))
   \<and> RsyncPush \<notin> set (trace (snd (snd (sync_tick \<lparr>proc = Completed, clock = 1005\<rparr> 1004
         ((example_daemon None)\<lparr>last_sync_time := 1000, pending_changes := {example_path}\<rparr>,
          example_world)))))"
proof -
  have o: "console_open example_world" "trace example_world = []"
    by (simp_all add: console_open_def example_world_def)
  have f: "last_sync_time ((example_daemon None)\<lparr>last_sync_time := 1000\<rparr>) = 1000"
    "max_sync_interval ((example_daemon None)\<lparr>last_sync_time := 1000\<rparr>) = 300"
    "sync_delay ((example_daemon None)\<lparr>last_sync_time := 1000, pending_changes := {example_path}\<rparr>) = 5"
    "max_sync_interval ((example_daemon None)\<lparr>last_sync_time := 1000, pending_changes := {example_path}\<rparr>) = 300"
    by (simp_all add: example_daemon_def CsyncDaemon_init_def Let_def)
  have a: "should_sync_now ((example_daemon None)\<lparr>last_sync_time := 1000, pending_changes := {}\<rparr>) 1301
   \<and> should_sync_now
        ((example_daemon None)\<lparr>last_sync_time := 1000, pending_changes := {example_path}\<rparr>) 1006
   \<and> \<not> should_sync_now
        ((example_daemon None)\<lparr>last_sync_time := 1000, pending_changes := {example_path}\<rparr>) 1004"
    using should_sync_now_trigger
      [of "example_daemon None" 0 "\<lambda>p. ''sig:'' @ p" "example_config None" 1000
          example_path example_world "\<lparr>proc = Completed, clock = 0\<rparr>"]
    by (simp add: example_daemon_def)
  have b: "RsyncPush \<in> set (trace (snd (snd (sync_tick \<lparr>proc = Completed, clock = 1302\<rparr> 1301
         ((example_daemon None)\<lparr>last_sync_time := 1000\<rparr>, example_world)))))"
    using should_sync_now_trigger
      [of "(example_daemon None)\<lparr>last_sync_time := 1000\<rparr>" 1301 "\<lambda>p. ''sig:'' @ p"
          "example_config None" 1000 example_path example_world "\<lparr>proc = Completed, clock = 1302\<rparr>"]
      o
    by (simp add: f)
  have c: "RsyncPush \<notin> set (trace (snd (snd (sync_tick \<lparr>proc = Completed, clock = 1005\<rparr> 1004
         ((example_daemon None)\<lparr>last_sync_time := 1000, pending_changes := {example_path}\<rparr>,
          example_world)))))"
    using should_sync_now_trigger
      [of "(example_daemon None)\<lparr>last_sync_time := 1000, pending_changes := {example_path}\<rparr>"
          1004 "\<lambda>p. ''sig:'' @ p"
          "example_config None" 1000 example_path example_world "\<lparr>proc = Completed, clock = 1005\<rparr>"]
      o
    by (simp add: f)
  from a o(1) b c show ?thesis by blast
qed

subsection \<open>Errors in the loop\<close>

text \<open>
  C5. When the executor raises during a pass, the loop is to catch the exception, sleep
  5 seconds instead of 1 and go on; it is never to end on a sync error. The code misses
  this. \<^verbatim>\<open>perform_sync\<close> catches every exception itself, so one leaves it only when
  the print of its own handler raises, that is when the console is closed; the handler
  of the loop then prints too, its print raises, and the exception ends the loop while
  \<^verbatim>\<open>is_running\<close> still holds. A detached daemon is in this state from the end of
  its start-up: the first pass in which a sync is due ends its scheduler thread. With an
  open console the executor never raises, every pass sleeps 1 second, and the loop
  performs every pass while \<^verbatim>\<open>is_running\<close> holds.
\<close>

theorem sync_loop_ends_on_closed_console:
  "(fst (start_up senv True (d0, w0)) = Watching \<longrightarrow>
      \<not> console_open (snd (snd (start_up senv True (d0, w0))))
      \<and> is_running (fst (snd (start_up senv True (d0, w0)))))
   \<and> (\<not> console_open w \<longrightarrow> fst (perform_sync_call env (d, w)) = Inl ValueError)
   \<and> (\<not> console_open w \<and> should_sync_now d now \<longrightarrow>
        fst (sync_tick env now (d, w)) = Raised ValueError)
   \<and> (\<not> console_open w \<and> is_running d \<and> \<not> stop_requested e
        \<and> should_sync_now d (tick_time e) \<longrightarrow>
        sync_loop (e # es) (d, w)
          = (Died ValueError, [], d\<lparr>pending_changes := {}\<rparr>,
             log_action (Drained (pending_changes d)) w))
   \<and> (console_open w \<longrightarrow>
        fst (perform_sync_call env (d, w)) = Inr (fst (perform_sync env (d, w)))
        \<and> fst (sync_tick env now (d, w)) = Slept 1)
   \<and> (console_open (snd s) \<and> is_running (fst s) \<and> (\<forall>e \<in> set ticks. \<not> stop_requested e) \<longrightarrow>
        fst (sync_loop ticks s) = StillLooping
        \<and> fst (snd (sync_loop ticks s)) = replicate (length ticks) 1)"
proof -
  have c1: "fst (start_up senv True (d0, w0)) = Watching \<longrightarrow>
      \<not> console_open (snd (snd (start_up senv True (d0, w0))))
      \<and> is_running (fst (snd (start_up senv True (d0, w0))))"
    using start_up_detached [of senv d0 w0] by (rule impI)
  have c2: "\<not> console_open w \<longrightarrow> fst (perform_sync_call env (d, w)) = Inl ValueError"
    by (simp add: perform_sync_call_closed)
  have c3: "\<not> console_open w \<and> should_sync_now d now \<longrightarrow>
        fst (sync_tick env now (d, w)) = Raised ValueError"
    by (simp add: sync_tick_closed)
  have c4: "\<not> console_open w \<and> is_running d \<and> \<not> stop_requested e
        \<and> should_sync_now d (tick_time e) \<longrightarrow>
        sync_loop (e # es) (d, w)
          = (Died ValueError, [], d\<lparr>pending_changes := {}\<rparr>,
             log_action (Drained (pending_changes d)) w)"
    using sync_loop_closed_console [of w d e es] by simp
  have c5: "console_open w \<longrightarrow>
        fst (perform_sync_call env (d, w)) = Inr (fst (perform_sync env (d, w)))
        \<and> fst (sync_tick env now (d, w)) = Slept 1"
    by (simp add: perform_sync_call_open sync_tick_open_slept)
  have c6: "console_open (snd s) \<and> is_running (fst s) \<and> (\<forall>e \<in> set ticks. \<not> stop_requested e) \<longrightarrow>
        fst (sync_loop ticks s) = StillLooping
        \<and> fst (snd (sync_loop ticks s)) = replicate (length ticks) 1"
    using sync_loop_open_console [of s ticks] by simp
  show ?thesis
    by (rule conjI [OF c1 conjI [OF c2 conjI [OF c3 conjI [OF c4 conjI [OF c5 c6]]]]])
qed

theorem sync_loop_ends_on_closed_console_witness:
  "fst (start_up (example_start_env (ForkChild 200)) True (example_daemon None, example_world))
     = Watching
   \<and> \<not> console_open (snd example_detached)
   \<and> is_running (fst example_detached)
   \<and> \<not> stop_requested example_tick
   \<and> should_sync_now (fst example_detached) (tick_time example_tick)
   \<and> fst (sync_loop [example_tick] example_detached) = Died ValueError
   \<and> is_running (fst (snd (snd (sync_loop [example_tick] example_detached))))
   \<and> console_open example_world
   \<and> fst (sync_loop [example_tick] ((example_daemon None)\<lparr>is_running := True\<rparr>, example_world))
       = StillLooping"
proof -
  have o: "console_open example_world"
    by (simp add: console_open_def example_world_def)
  have t: "\<not> stop_requested example_tick" "tick_time example_tick = 2000"
    by (simp_all add: example_tick_def)
  have sh: "should_sync_now (fst example_detached) 2000"
    by (simp add: should_sync_now_def example_detached_facts)
  have a: "\<not> console_open (snd example_detached) \<and> is_running (fst example_detached)"
    using sync_loop_ends_on_closed_console
      [of "example_start_env (ForkChild 200)" "example_daemon None" example_world
          "snd example_detached" "tick_sync example_tick" "fst example_detached" 2000
          example_tick "[]" "((example_daemon None)\<lparr>is_running := True\<rparr>, example_world)"
          "[example_tick]"]
      example_detached_facts(1)
    by (simp add: example_detached_def)
  have b: "sync_loop [example_tick] example_detached
      = (Died ValueError, [], (fst example_detached)\<lparr>pending_changes := {}\<rparr>,
         log_action (Drained (pending_changes (fst example_detached))) (snd example_detached))"
    using sync_loop_ends_on_closed_console
      [of "example_start_env (ForkChild 200)" "example_daemon None" example_world
          "snd example_detached" "tick_sync example_tick" "fst example_detached" 2000
          example_tick "[]" "((example_daemon None)\<lparr>is_running := True\<rparr>, example_world)"
          "[example_tick]"]
      a t sh
    by (simp del: sync_loop.simps)
  have c: "fst (sync_loop [example_tick] ((example_daemon None)\<lparr>is_running := True\<rparr>, example_world))
       = StillLooping"
    using sync_loop_ends_on_closed_console
      [of "example_start_env (ForkChild 200)" "example_daemon None" example_world
          "snd example_detached" "tick_sync example_tick" "fst example_detached" 2000
          example_tick "[]" "((example_daemon None)\<lparr>is_running := True\<rparr>, example_world)"
          "[example_tick]"]
      o t
    by (simp del: sync_loop.simps)
  show ?thesis
    using a b c o t sh example_detached_facts(1) by (simp del: sync_loop.simps)
qed

end
